theory Spec2Isabelle
  imports Main "HOL-Library.AList"
begin

section \<open>LinkedChain: data model\<close>

text \<open>
  The program is object oriented and its objects alias each other: nodes point to their
  neighbours, several nodes share one history, and a history owns snapshot nodes that it
  mutates in place.  Object identity is therefore explicit: a node is an address into a
  store of node records, a history an address into a store of history records, and every
  method takes the store and returns the new one.  \<open>new\<close> takes the next free address
  (\<open>node_count\<close>, \<open>hist_count\<close>); the objects of a store are the addresses below these
  counters.

  A payload \<open>T\<close> is a plain object: its own properties in insertion order, as an
  association list with distinct keys.  Property values are compared with \<open>!==\<close> only, so
  they are atoms of a type \<open>'v\<close> (no \<open>NaN\<close>).  \<open>universalClone\<close> gives a fresh object
  with the same properties; since payloads are held by value here, it is the identity,
  and the only in-place mutation of a payload (\<open>Object.assign\<close> on the payload of a
  snapshot node) is an update of that node's record in the store.

  The sets \<open>_progeny\<close> and \<open>_ancestors\<close> are sets of addresses.  An index argument is
  an integer.  A method that can throw returns the store together with the error.
\<close>

type_synonym addr = nat
type_synonym haddr = nat
type_synonym 'v obj = "(string \<times> 'v) list"

text \<open>\<open>Metadata\<close>: every field is optional (\<open>None\<close> is \<open>undefined\<close>).\<close>

record 'v Metadata =
  m_id :: "(int + string) option"
  m_title :: "string option"
  m_description :: "string option"
  m_extra :: "'v obj option"

text \<open>
  \<open>Partial<Metadata>\<close> as \<open>calculate_metadata_delta\<close> builds it: a key is absent
  (\<open>None\<close>) or present, and a present key may hold \<open>undefined\<close> (\<open>Some None\<close>).
\<close>

record MetadataDelta =
  d_title :: "string option option"
  d_description :: "string option option"

text \<open>
  \<open>LinkedChainIngredients\<close>.  \<open>parent\<close> and \<open>next\<close> are absent (\<open>None\<close>), \<open>null\<close>
  (\<open>Some None\<close>) or a node.
\<close>

record 'v LinkedChainIngredients =
  i_origin :: "addr option"
  i_parent :: "addr option option"
  i_next :: "addr option option"
  i_data :: "'v obj option"
  i_metadata :: "'v Metadata option"
  i_is_snapshot :: "bool option"
  i_history :: "haddr option"

record 'v HistoryEntry =
  timestamp :: nat
  data_delta :: "'v obj option"
  metadata_delta :: "MetadataDelta option"
  checkpoint :: "addr option"

text \<open>The fields of a \<open>LinkedChain\<close> object (\<open>_origin\<close>, \<open>_metadata\<close>, ...).\<close>

record 'v LinkedChain =
  n_origin :: "addr option"
  n_metadata :: "'v Metadata option"
  n_data :: "'v obj option"
  n_previous :: "addr option"
  n_next :: "addr option"
  n_progeny :: "addr set"
  n_ancestors :: "addr set"
  n_chain_link_history :: haddr
  n_is_snapshot :: bool

text \<open>The fields of a \<open>LinkedChainHistory\<close> object.\<close>

record 'v LinkedChainHistory =
  timeline :: "'v HistoryEntry list"
  original_state :: addr
  latest_state :: addr
  saved_checkpoints :: "addr list"

text \<open>The store.  \<open>now\<close> is what \<open>Date.now()\<close> returns.\<close>

record 'v state =
  nodes :: "addr \<Rightarrow> 'v LinkedChain"
  hists :: "haddr \<Rightarrow> 'v LinkedChainHistory"
  node_count :: nat
  hist_count :: nat
  now :: nat

datatype error = TypeError | InvalidHistoryIndex

text \<open>The argument of \<open>add_entry\<close>: a node, or a raw \<open>Partial<T>\<close>.\<close>

datatype 'v item = Link addr | Partial "'v obj"

datatype direction = Previous | Next

definition upd_node :: "'v state \<Rightarrow> addr \<Rightarrow> ('v LinkedChain \<Rightarrow> 'v LinkedChain) \<Rightarrow> 'v state" where
  "upd_node s a f = s\<lparr>nodes := (nodes s)(a := f (nodes s a))\<rparr>"

definition upd_hist ::
  "'v state \<Rightarrow> haddr \<Rightarrow> ('v LinkedChainHistory \<Rightarrow> 'v LinkedChainHistory) \<Rightarrow> 'v state" where
  "upd_hist s h f = s\<lparr>hists := (hists s)(h := f (hists s h))\<rparr>"

section \<open>Objects and deltas\<close>

text \<open>
  \<open>Object.assign(target, source)\<close>: every property of the source is written to the
  target, in the source's order; a key the target has keeps its place, a new key goes
  to the end.
\<close>

definition object_assign :: "'v obj \<Rightarrow> 'v obj \<Rightarrow> 'v obj" where
  "object_assign target source = foldl (\<lambda>t (k, v). AList.update k v t) target source"

text \<open>
  \<open>calculate_delta\<close>: the properties of \<open>newObj\<close> whose value is not identical to the
  one \<open>oldObj\<close> has under the same key (a key \<open>oldObj\<close> lacks reads as \<open>undefined\<close>).
\<close>

definition calculate_delta :: "'v obj \<Rightarrow> 'v obj \<Rightarrow> 'v obj" where
  "calculate_delta oldObj newObj =
     foldl (\<lambda>delta (key, v). if Some v \<noteq> map_of oldObj key then AList.update key v delta else delta)
       [] newObj"

definition calculate_metadata_delta :: "'v Metadata \<Rightarrow> 'v Metadata \<Rightarrow> MetadataDelta" where
  "calculate_metadata_delta old_metadata new_metadata =
     \<lparr>d_title = (if m_title old_metadata \<noteq> m_title new_metadata
                 then Some (m_title new_metadata) else None),
      d_description = (if m_description old_metadata \<noteq> m_description new_metadata
                 then Some (m_description new_metadata) else None)\<rparr>"

text \<open>\<open>Object.keys(meta_delta).length\<close>.\<close>

definition meta_keys :: "MetadataDelta \<Rightarrow> nat" where
  "meta_keys d = (if d_title d = None then 0 else 1) + (if d_description d = None then 0 else 1)"

text \<open>\<open>Object.assign(metadata, meta_delta)\<close>.\<close>

definition assign_metadata :: "'v Metadata \<Rightarrow> MetadataDelta \<Rightarrow> 'v Metadata" where
  "assign_metadata m d =
     m\<lparr>m_title := (case d_title d of None \<Rightarrow> m_title m | Some t \<Rightarrow> t),
       m_description := (case d_description d of None \<Rightarrow> m_description m | Some t \<Rightarrow> t)\<rparr>"

text \<open>\<open>metadata()\<close>: the node's metadata, or a fresh default object.\<close>

definition metadata :: "'v LinkedChain \<Rightarrow> 'v Metadata" where
  "metadata n = (case n_metadata n of
       Some m \<Rightarrow> m
     | None \<Rightarrow> \<lparr>m_id = None, m_title = Some '''', m_description = Some '''', m_extra = Some []\<rparr>)"

text \<open>
  \<open>Object.assign(node.metadata(), delta)\<close>: when the node has no metadata object the
  assignment goes to the fresh default object and is lost.
\<close>

definition assign_node_metadata :: "MetadataDelta \<Rightarrow> 'v LinkedChain \<Rightarrow> 'v LinkedChain" where
  "assign_node_metadata d n = (case n_metadata n of
       Some m \<Rightarrow> n\<lparr>n_metadata := Some (assign_metadata m d)\<rparr>
     | None \<Rightarrow> n)"

section \<open>Construction\<close>

text \<open>
  The constructor, in the order of its body: the fields, then the history, then the
  registration with the neighbours.  \<open>assign_fields\<close> is the first part (the object
  takes the next free address), \<open>init_branching_sets\<close> the last.
\<close>

definition assign_fields :: "'v state \<Rightarrow> 'v LinkedChainIngredients \<Rightarrow> haddr \<Rightarrow> 'v state \<times> addr" where
  "assign_fields s ingredients h =
     (let this = node_count s in
      (s\<lparr>nodes := (nodes s)(this :=
            \<lparr>n_origin = i_origin ingredients,
             n_metadata = i_metadata ingredients,
             n_data = i_data ingredients,
             n_previous = (case i_parent ingredients of None \<Rightarrow> None | Some p \<Rightarrow> p),
             n_next = (case i_next ingredients of None \<Rightarrow> None | Some p \<Rightarrow> p),
             n_progeny = {},
             n_ancestors = {},
             n_chain_link_history = h,
             n_is_snapshot = (case i_is_snapshot ingredients of None \<Rightarrow> False | Some b \<Rightarrow> b)\<rparr>),
          node_count := Suc (node_count s)\<rparr>, this))"

definition init_branching_sets :: "'v state \<Rightarrow> addr \<Rightarrow> 'v state" where
  "init_branching_sets s this =
     (let s1 = (case n_previous (nodes s this) of
                  None \<Rightarrow> s
                | Some p \<Rightarrow>
                    upd_node (upd_node s this (\<lambda>n. n\<lparr>n_ancestors := insert p (n_ancestors n)\<rparr>))
                      p (\<lambda>n. n\<lparr>n_progeny := insert this (n_progeny n)\<rparr>))
      in (case n_next (nodes s1 this) of
            None \<Rightarrow> s1
          | Some x \<Rightarrow>
              upd_node (upd_node s1 this (\<lambda>n. n\<lparr>n_progeny := insert x (n_progeny n)\<rparr>))
                x (\<lambda>n. n\<lparr>n_ancestors := insert this (n_ancestors n)\<rparr>)))"

text \<open>
  \<open>create_snapshot_link\<close>: a new node with \<open>is_snapshot: true\<close> and \<open>history: this\<close>,
  so its constructor reuses the history \<open>h\<close>.
\<close>

definition create_snapshot_link :: "'v state \<Rightarrow> haddr \<Rightarrow> addr \<Rightarrow> 'v state \<times> addr" where
  "create_snapshot_link s h link =
     (let l = nodes s link;
          (s1, this) = assign_fields s
             \<lparr>i_origin = n_origin l,
              i_parent = Some (n_previous l),
              i_next = Some (n_next l),
              i_data = n_data l,
              i_metadata = Some (metadata l),
              i_is_snapshot = Some True,
              i_history = Some h\<rparr> h
      in (init_branching_sets s1 this, this))"

definition add_checkpoint :: "'v state \<Rightarrow> haddr \<Rightarrow> addr \<Rightarrow> 'v state" where
  "add_checkpoint s h link =
     (let (s1, snapshot) = create_snapshot_link s h link
      in upd_hist s1 h (\<lambda>H. H\<lparr>timeline := timeline H @
           [\<lparr>timestamp = now s1, data_delta = None, metadata_delta = None,
             checkpoint = Some snapshot\<rparr>]\<rparr>))"

text \<open>The constructor of \<open>LinkedChainHistory\<close>; the new history takes the next free address.\<close>

definition new_LinkedChainHistory :: "'v state \<Rightarrow> addr \<Rightarrow> 'v state \<times> haddr" where
  "new_LinkedChainHistory s link =
     (let h = hist_count s;
          s0 = s\<lparr>hists := (hists s)(h :=
                  \<lparr>timeline = [], original_state = 0, latest_state = 0, saved_checkpoints = []\<rparr>),
                hist_count := Suc (hist_count s)\<rparr>;
          (s1, original) = create_snapshot_link s0 h link;
          s2 = upd_hist s1 h (\<lambda>H. H\<lparr>original_state := original\<rparr>);
          (s3, latest) = create_snapshot_link s2 h link;
          s4 = upd_hist s3 h (\<lambda>H. H\<lparr>latest_state := latest\<rparr>)
      in (add_checkpoint s4 h (original_state (hists s4 h)), h))"

definition new_LinkedChain :: "'v state \<Rightarrow> 'v LinkedChainIngredients \<Rightarrow> 'v state \<times> addr" where
  "new_LinkedChain s ingredients =
     (case (i_is_snapshot ingredients, i_history ingredients) of
        (Some True, Some h) \<Rightarrow>
          (let (s1, this) = assign_fields s ingredients h
           in (init_branching_sets s1 this, this))
      | _ \<Rightarrow>
          (let (s1, this) = assign_fields s ingredients 0;
               (s2, h) = new_LinkedChainHistory s1 this;
               s3 = upd_node s2 this (\<lambda>n. n\<lparr>n_chain_link_history := h\<rparr>)
           in (init_branching_sets s3 this, this)))"

section \<open>The history\<close>

definition add_entry :: "'v state \<Rightarrow> haddr \<Rightarrow> 'v item \<Rightarrow> 'v state" where
  "add_entry s h item =
     (let latest = latest_state (hists s h) in
      case item of
        Link it \<Rightarrow>
          (let new_data = n_data (nodes s it);
               new_meta = metadata (nodes s it);
               delta = (case (new_data, n_data (nodes s latest)) of
                          (Some nd, Some ld) \<Rightarrow> Some (calculate_delta ld nd)
                        | _ \<Rightarrow> None);
               meta_delta = calculate_metadata_delta (metadata (nodes s latest)) new_meta
           in if (case delta of Some d \<Rightarrow> 0 < length d | None \<Rightarrow> False) \<or> 0 < meta_keys meta_delta
              then
                (let s1 = upd_hist s h (\<lambda>H. H\<lparr>timeline := timeline H @
                            [\<lparr>timestamp = now s,
                              data_delta = Some (case delta of Some d \<Rightarrow> d | None \<Rightarrow> []),
                              metadata_delta = Some meta_delta,
                              checkpoint = None\<rparr>]\<rparr>);
                     s2 = (case delta of
                             Some d \<Rightarrow> upd_node s1 latest
                               (\<lambda>n. n\<lparr>n_data := map_option (\<lambda>t. object_assign t d) (n_data n)\<rparr>)
                           | None \<Rightarrow> s1)
                 in upd_node s2 latest (assign_node_metadata meta_delta))
              else s)
      | Partial p \<Rightarrow>
          (let s1 = upd_hist s h (\<lambda>H. H\<lparr>timeline := timeline H @
                      [\<lparr>timestamp = now s, data_delta = Some p, metadata_delta = None,
                        checkpoint = None\<rparr>]\<rparr>)
           in case n_data (nodes s1 latest) of
                Some t \<Rightarrow> upd_node s1 latest (\<lambda>n. n\<lparr>n_data := Some (object_assign t p)\<rparr>)
              | None \<Rightarrow> s1))"

definition save_checkpoint :: "'v state \<Rightarrow> haddr \<Rightarrow> 'v state" where
  "save_checkpoint s h =
     (let (s1, snapshot) = create_snapshot_link s h (latest_state (hists s h));
          s2 = upd_hist s1 h (\<lambda>H. H\<lparr>saved_checkpoints := saved_checkpoints H @ [snapshot]\<rparr>)
      in upd_hist s2 h (\<lambda>H. H\<lparr>timeline := timeline H @
           [\<lparr>timestamp = now s2, data_delta = None, metadata_delta = None,
             checkpoint = Some snapshot\<rparr>]\<rparr>))"

text \<open>
  The loop of \<open>delta_between_points\<close>, \<open>for (i = start + 1; i <= end; i++)\<close>; an index
  beyond the timeline reads \<open>undefined\<close> and is skipped.
\<close>

function delta_loop :: "'v HistoryEntry list \<Rightarrow> nat \<Rightarrow> nat \<Rightarrow> 'v obj \<Rightarrow> 'v obj" where
  "delta_loop es i e delta =
     (if i \<le> e
      then delta_loop es (Suc i) e
             (if i < length es
              then (case data_delta (es ! i) of
                      Some d \<Rightarrow> object_assign delta d
                    | None \<Rightarrow> delta)
              else delta)
      else delta)"
  by pat_completeness auto
termination
  by (relation "measure (\<lambda>(es, i, e, delta). Suc e - i)") auto

declare delta_loop.simps [simp del]

definition delta_between_points :: "'v state \<Rightarrow> haddr \<Rightarrow> int \<Rightarrow> int \<Rightarrow> 'v obj" where
  "delta_between_points s h start end' =
     (let es = timeline (hists s h) in
      if start < 0 \<or> end' \<ge> int (length es) then []
      else if end' > start then delta_loop es (nat (start + 1)) (nat end') []
      else [])"

text \<open>
  \<open>rebuild_at\<close>.  The first loop walks down from \<open>index\<close> to the nearest entry with a
  checkpoint and gives the checkpoint with its index.
\<close>

primrec find_checkpoint :: "'v HistoryEntry list \<Rightarrow> nat \<Rightarrow> (addr \<times> nat) option" where
  "find_checkpoint es 0 =
     (case (if 0 < length es then checkpoint (es ! 0) else None) of
        Some c \<Rightarrow> Some (c, 0)
      | None \<Rightarrow> None)"
| "find_checkpoint es (Suc i) =
     (case (if Suc i < length es then checkpoint (es ! Suc i) else None) of
        Some c \<Rightarrow> Some (c, Suc i)
      | None \<Rightarrow> find_checkpoint es i)"

text \<open>
  One round of the replay loop on the base node.  \<open>Object.assign(baselink.data(), ...)\<close>
  throws a TypeError when the base has no payload; \<open>replay_loop\<close> tests that first.
\<close>

definition apply_entry :: "'v state \<Rightarrow> addr \<Rightarrow> 'v HistoryEntry \<Rightarrow> 'v state" where
  "apply_entry s baselink entry =
     (let s1 = (case data_delta entry of
                  Some d \<Rightarrow> upd_node s baselink
                    (\<lambda>n. n\<lparr>n_data := map_option (\<lambda>t. object_assign t d) (n_data n)\<rparr>)
                | None \<Rightarrow> s)
      in case metadata_delta entry of
           Some md \<Rightarrow> upd_node s1 baselink (assign_node_metadata md)
         | None \<Rightarrow> s1)"

function replay_loop ::
  "'v state \<Rightarrow> 'v HistoryEntry list \<Rightarrow> nat \<Rightarrow> nat \<Rightarrow> addr \<Rightarrow> 'v state \<times> error option" where
  "replay_loop s es i index baselink =
     (if i \<le> index
      then (if i < length es
            then (if data_delta (es ! i) \<noteq> None \<and> n_data (nodes s baselink) = None
                  then (s, Some TypeError)
                  else replay_loop (apply_entry s baselink (es ! i)) es (Suc i) index baselink)
            else replay_loop s es (Suc i) index baselink)
      else (s, None))"
  by pat_completeness auto
termination
  by (relation "measure (\<lambda>(s, es, i, index, baselink). Suc index - i)") auto

declare replay_loop.simps [simp del]

text \<open>
  The result of \<open>rebuild_at\<close>: the store, and a thrown error, \<open>undefined\<close>
  (\<open>Inr None\<close>) or the rebuilt snapshot node.
\<close>

definition rebuild_at :: "'v state \<Rightarrow> haddr \<Rightarrow> int \<Rightarrow> 'v state \<times> (error + addr option)" where
  "rebuild_at s h index =
     (let es = timeline (hists s h) in
      if index < 0 \<or> index \<ge> int (length es) then (s, Inr None)
      else
        (let (s1, baselink, start) =
               (case find_checkpoint es (nat index) of
                  Some (c, jumpIdx) \<Rightarrow>
                    (let (s', b) = create_snapshot_link s h c in (s', b, Suc jumpIdx))
                | None \<Rightarrow>
                    (let (s', b) = create_snapshot_link s h (original_state (hists s h))
                     in (s', b, 0)));
             (s2, err) = replay_loop s1 es start (nat index) baselink
         in case err of
              Some e \<Rightarrow> (s2, Inl e)
            | None \<Rightarrow> (s2, Inr (Some baselink))))"

section \<open>The node\<close>

definition history :: "'v state \<Rightarrow> addr \<Rightarrow> haddr" where
  "history s this = n_chain_link_history (nodes s this)"

text \<open>\<open>a ?? b\<close>.\<close>

definition nullish :: "'a option \<Rightarrow> 'a option \<Rightarrow> 'a option" where
  "nullish a b = (case a of None \<Rightarrow> b | Some x \<Rightarrow> Some x)"

text \<open>The metadata object that \<open>update\<close> and \<open>update_metadata\<close> build.\<close>

definition merge_metadata :: "'v Metadata \<Rightarrow> 'v LinkedChain \<Rightarrow> 'v LinkedChain" where
  "merge_metadata new_metadata n =
     n\<lparr>n_metadata := Some
        \<lparr>m_id = nullish (m_id new_metadata) (m_id (metadata n)),
         m_title = nullish (m_title new_metadata) (m_title (metadata n)),
         m_description = nullish (m_description new_metadata) (m_description (metadata n)),
         m_extra = nullish (m_extra new_metadata) (m_extra (metadata n))\<rparr>\<rparr>"

definition add_link :: "'v state \<Rightarrow> addr \<Rightarrow> addr \<Rightarrow> 'v state" where
  "add_link s this link =
     (let s1 = upd_node s this (\<lambda>n. n\<lparr>n_progeny := insert link (n_progeny n)\<rparr>);
          s2 = upd_node s1 link (\<lambda>n. n\<lparr>n_ancestors := insert this (n_ancestors n)\<rparr>)
      in add_entry s2 (history s2 this) (Link link))"

definition update_metadata :: "'v state \<Rightarrow> addr \<Rightarrow> 'v Metadata \<Rightarrow> 'v state" where
  "update_metadata s this new_metadata =
     (let s1 = upd_node s this (merge_metadata new_metadata)
      in add_entry s1 (history s1 this) (Link this))"

definition set_next :: "'v state \<Rightarrow> addr \<Rightarrow> addr option \<Rightarrow> bool \<Rightarrow> 'v state" where
  "set_next s this new_link record_history =
     (let s1 = upd_node s this (\<lambda>n. n\<lparr>n_next := new_link\<rparr>);
          s2 = (case new_link of
                  Some l \<Rightarrow>
                    upd_node (upd_node s1 this (\<lambda>n. n\<lparr>n_progeny := insert l (n_progeny n)\<rparr>))
                      l (\<lambda>n. n\<lparr>n_ancestors := insert this (n_ancestors n)\<rparr>)
                | None \<Rightarrow> s1)
      in if record_history then add_entry s2 (history s2 this) (Link this) else s2)"

definition set_previous :: "'v state \<Rightarrow> addr \<Rightarrow> addr option \<Rightarrow> bool \<Rightarrow> 'v state" where
  "set_previous s this new_link record_history =
     (let s1 = upd_node s this (\<lambda>n. n\<lparr>n_previous := new_link\<rparr>);
          s2 = (case new_link of
                  Some l \<Rightarrow>
                    upd_node (upd_node s1 this (\<lambda>n. n\<lparr>n_ancestors := insert l (n_ancestors n)\<rparr>))
                      l (\<lambda>n. n\<lparr>n_progeny := insert this (n_progeny n)\<rparr>)
                | None \<Rightarrow> s1)
      in if record_history then add_entry s2 (history s2 this) (Link this) else s2)"

text \<open>
  \<open>update\<close>.  With a metadata field it first calls \<open>update_metadata\<close>, which records an
  entry of its own, then builds the same metadata object again; the setters are called
  with \<open>record_history = false\<close>; the last statement records an entry.
\<close>

definition update :: "'v state \<Rightarrow> addr \<Rightarrow> 'v LinkedChainIngredients \<Rightarrow> 'v state" where
  "update s this ingredients =
     (let s1 = (case i_metadata ingredients of
                  Some m \<Rightarrow> update_metadata s this m
                | None \<Rightarrow> s);
          s2 = (case i_metadata ingredients of
                  Some m \<Rightarrow> upd_node s1 this (merge_metadata m)
                | None \<Rightarrow> s1);
          s3 = (case i_data ingredients of
                  Some d \<Rightarrow> upd_node s2 this (\<lambda>n. n\<lparr>n_data := Some d\<rparr>)
                | None \<Rightarrow> s2);
          s4 = (case i_next ingredients of
                  Some l \<Rightarrow> set_next s3 this l False
                | None \<Rightarrow> s3);
          s5 = (case i_parent ingredients of
                  Some l \<Rightarrow> set_previous s4 this l False
                | None \<Rightarrow> s4)
      in add_entry s5 (history s5 this) (Link this))"

text \<open>\<open>next()\<close> or \<open>previous()\<close>, by direction.\<close>

definition neighbour :: "'v state \<Rightarrow> direction \<Rightarrow> addr \<Rightarrow> addr option" where
  "neighbour s d a = (case d of Next \<Rightarrow> n_next (nodes s a) | Previous \<Rightarrow> n_previous (nodes s a))"

text \<open>
  The generator \<open>iterate\<close> as the list of the nodes it yields.  The loop need not end;
  \<open>None\<close> is a walk that never ends.
\<close>

partial_function (option) iterate_loop ::
  "'v state \<Rightarrow> direction \<Rightarrow> addr \<Rightarrow> addr option \<Rightarrow> addr list option" where
  "iterate_loop s d this current =
     (case current of
        None \<Rightarrow> Some []
      | Some c \<Rightarrow>
          (if neighbour s d c = Some this then Some [c]
           else Option.bind (iterate_loop s d this (neighbour s d c)) (\<lambda>rest. Some (c # rest))))"

definition iterate :: "'v state \<Rightarrow> addr \<Rightarrow> direction \<Rightarrow> addr list option" where
  "iterate s this d = iterate_loop s d this (neighbour s d this)"

definition link_next :: "'v state \<Rightarrow> addr \<Rightarrow> addr \<Rightarrow> 'v state" where
  "link_next s this chain_to_link =
     (let cur_next = n_next (nodes s this);
          s1 = set_previous s chain_to_link (Some this) False;
          s2 = set_next s1 chain_to_link cur_next False;
          s3 = set_next s2 this (Some chain_to_link) True
      in if history s3 chain_to_link \<noteq> history s3 this
         then add_entry s3 (history s3 chain_to_link) (Link chain_to_link)
         else s3)"

definition link_previous :: "'v state \<Rightarrow> addr \<Rightarrow> addr \<Rightarrow> 'v state" where
  "link_previous s this chain_to_link =
     (let cur_prev = n_previous (nodes s this);
          s1 = (case cur_prev of
                  Some p \<Rightarrow> set_next s p (Some chain_to_link) True
                | None \<Rightarrow> s);
          s2 = set_previous s1 chain_to_link cur_prev False;
          s3 = set_next s2 chain_to_link (Some this) False;
          s4 = set_previous s3 this (Some chain_to_link) True
      in if history s4 chain_to_link \<noteq> history s4 this
         then add_entry s4 (history s4 chain_to_link) (Link chain_to_link)
         else s4)"

text \<open>\<open>revert_to_history\<close>: the store and the error thrown, if any.\<close>

definition revert_to_history :: "'v state \<Rightarrow> addr \<Rightarrow> int \<Rightarrow> 'v state \<times> error option" where
  "revert_to_history s this index =
     (let (s1, r) = rebuild_at s (history s this) index in
      case r of
        Inl e \<Rightarrow> (s1, Some e)
      | Inr None \<Rightarrow> (s1, None)
      | Inr (Some st) \<Rightarrow>
          (let s2 = upd_node s1 this
                      (\<lambda>n. n\<lparr>n_data := n_data (nodes s1 st),
                             n_metadata := Some (metadata (nodes s1 st))\<rparr>)
           in (add_entry s2 (history s2 this) (Link this), None)))"

text \<open>The template literal \<open>`${title} (Branch)`\<close>.\<close>

definition branch_title :: "string option \<Rightarrow> string" where
  "branch_title t = (case t of None \<Rightarrow> ''undefined'' | Some x \<Rightarrow> x) @ '' (Branch)''"

text \<open>\<open>branch_from_history\<close>: the store, and the error thrown or the new node.\<close>

definition branch_from_history :: "'v state \<Rightarrow> addr \<Rightarrow> int \<Rightarrow> 'v state \<times> (error + addr)" where
  "branch_from_history s this index =
     (let (s1, r) = rebuild_at s (history s this) index in
      case r of
        Inl e \<Rightarrow> (s1, Inl e)
      | Inr None \<Rightarrow> (s1, Inl InvalidHistoryIndex)
      | Inr (Some st) \<Rightarrow>
          (let (s2, branch) = new_LinkedChain s1
                 \<lparr>i_origin = Some (case n_origin (nodes s1 this) of Some x \<Rightarrow> x | None \<Rightarrow> this),
                  i_parent = None,
                  i_next = None,
                  i_data = n_data (nodes s1 st),
                  i_metadata = Some ((metadata (nodes s1 st))
                     \<lparr>m_title := Some (branch_title (m_title (metadata (nodes s1 st))))\<rparr>),
                  i_is_snapshot = None,
                  i_history = None\<rparr>
           in (add_entry s2 (history s2 this) (Link branch), Inr branch)))"

section \<open>Specification-side notions\<close>

text \<open>A payload is an object when its keys are distinct.\<close>

definition wf_object :: "'v obj \<Rightarrow> bool" where
  "wf_object d = distinct (map fst d)"

text \<open>
  What one timeline entry does to a payload when it is replayed: its \<open>data_delta\<close>, if
  it has one, is assigned onto the payload.
\<close>

definition entry_assign :: "'v obj \<Rightarrow> 'v HistoryEntry \<Rightarrow> 'v obj" where
  "entry_assign d e = (case data_delta e of Some x \<Rightarrow> object_assign d x | None \<Rightarrow> d)"

text \<open>
  The data deltas of the entries after \<open>start\<close> up to \<open>end\<close>, in timeline order, and
  their last-write-wins union: as an object (\<open>Object.assign({}, d1, ..., dn)\<close>) and as
  the map from keys to values it denotes.
\<close>

definition deltas_between :: "'v HistoryEntry list \<Rightarrow> nat \<Rightarrow> nat \<Rightarrow> 'v obj list" where
  "deltas_between es start end' =
     List.map_filter data_delta (take (end' - start) (drop (Suc start) es))"

definition assign_all :: "'v obj list \<Rightarrow> 'v obj" where
  "assign_all ds = foldl object_assign [] ds"

definition lww_union :: "'v obj list \<Rightarrow> (string \<rightharpoonup> 'v)" where
  "lww_union ds = foldl (\<lambda>m d. m ++ map_of d) Map.empty ds"

text \<open>
  The pointer chain of a node: \<open>chain_at s d (Some a) n\<close> is the node reached from \<open>a\<close>
  by \<open>n\<close> steps along \<open>next\<close> (or \<open>previous\<close>), \<open>None\<close> once the chain has hit \<open>null\<close>.
\<close>

primrec chain_at :: "'v state \<Rightarrow> direction \<Rightarrow> addr option \<Rightarrow> nat \<Rightarrow> addr option" where
  "chain_at s d cur 0 = cur"
| "chain_at s d cur (Suc n) =
     chain_at s d (case cur of None \<Rightarrow> None | Some c \<Rightarrow> neighbour s d c) n"

text \<open>
  The constructor makes a history of its own unless it is given \<open>is_snapshot: true\<close>
  together with a history.  The snapshots of the new history copy \<open>metadata()\<close> of the
  node under construction, which is \<open>ingredients_metadata\<close>.
\<close>

definition own_history :: "'v LinkedChainIngredients \<Rightarrow> bool" where
  "own_history ing = (\<not> (i_is_snapshot ing = Some True \<and> i_history ing \<noteq> None))"

definition ingredients_metadata :: "'v LinkedChainIngredients \<Rightarrow> 'v Metadata" where
  "ingredients_metadata ing = (case i_metadata ing of
       Some m \<Rightarrow> m
     | None \<Rightarrow> \<lparr>m_id = None, m_title = Some '''', m_description = Some '''', m_extra = Some []\<rparr>)"

text \<open>
  The three values \<open>add_entry\<close> computes for a node argument: the data delta, the
  metadata delta, and whether it appends an entry.
\<close>

definition link_data_delta :: "'v state \<Rightarrow> haddr \<Rightarrow> addr \<Rightarrow> 'v obj option" where
  "link_data_delta s h it =
     (case (n_data (nodes s it), n_data (nodes s (latest_state (hists s h)))) of
        (Some nd, Some ld) \<Rightarrow> Some (calculate_delta ld nd)
      | _ \<Rightarrow> None)"

definition link_meta_delta :: "'v state \<Rightarrow> haddr \<Rightarrow> addr \<Rightarrow> MetadataDelta" where
  "link_meta_delta s h it =
     calculate_metadata_delta (metadata (nodes s (latest_state (hists s h)))) (metadata (nodes s it))"

definition records :: "'v state \<Rightarrow> haddr \<Rightarrow> addr \<Rightarrow> bool" where
  "records s h it =
     ((case link_data_delta s h it of Some d \<Rightarrow> 0 < length d | None \<Rightarrow> False)
      \<or> 0 < meta_keys (link_meta_delta s h it))"

text \<open>
  The public operations as data, so that sequences of calls can be quantified over.
  An operation that throws leaves the store as it was at the throw.
\<close>

datatype 'v operation =
    SetNext addr "addr option" bool
  | SetPrevious addr "addr option" bool
  | Update addr "'v LinkedChainIngredients"
  | UpdateMetadata addr "'v Metadata"
  | LinkNext addr addr
  | LinkPrevious addr addr
  | AddLink addr addr
  | RevertToHistory addr int
  | BranchFromHistory addr int
  | RebuildAt addr int
  | AddEntry haddr "'v item"
  | SaveCheckpoint haddr
  | AddCheckpoint haddr addr
  | New "'v LinkedChainIngredients"

fun perform :: "'v state \<Rightarrow> 'v operation \<Rightarrow> 'v state" where
  "perform s (SetNext a l r) = set_next s a l r"
| "perform s (SetPrevious a l r) = set_previous s a l r"
| "perform s (Update a ing) = update s a ing"
| "perform s (UpdateMetadata a m) = update_metadata s a m"
| "perform s (LinkNext a b) = link_next s a b"
| "perform s (LinkPrevious a b) = link_previous s a b"
| "perform s (AddLink a b) = add_link s a b"
| "perform s (RevertToHistory a i) = fst (revert_to_history s a i)"
| "perform s (BranchFromHistory a i) = fst (branch_from_history s a i)"
| "perform s (RebuildAt a i) = fst (rebuild_at s (history s a) i)"
| "perform s (AddEntry h it) = add_entry s h it"
| "perform s (SaveCheckpoint h) = save_checkpoint s h"
| "perform s (AddCheckpoint h a) = add_checkpoint s h a"
| "perform s (New ing) = fst (new_LinkedChain s ing)"

definition perform_all :: "'v state \<Rightarrow> 'v operation list \<Rightarrow> 'v state" where
  "perform_all s ops = foldl perform s ops"

text \<open>
  \<open>grows s s'\<close>: every node of \<open>s\<close> is a node of \<open>s'\<close> and has kept all its ancestors
  and progeny.
\<close>

definition grows :: "'v state \<Rightarrow> 'v state \<Rightarrow> bool" where
  "grows s s' =
     (node_count s \<le> node_count s' \<and>
      (\<forall>x < node_count s.
         n_progeny (nodes s x) \<subseteq> n_progeny (nodes s' x) \<and>
         n_ancestors (nodes s x) \<subseteq> n_ancestors (nodes s' x)))"

section \<open>Concrete stores\<close>

text \<open>The store before any object exists, and some nodes built in it.\<close>

definition empty_store :: "'v state" where
  "empty_store =
     \<lparr>nodes = (\<lambda>_. \<lparr>n_origin = None, n_metadata = None, n_data = None, n_previous = None,
                     n_next = None, n_progeny = {}, n_ancestors = {},
                     n_chain_link_history = 0, n_is_snapshot = False\<rparr>),
      hists = (\<lambda>_. \<lparr>timeline = [], original_state = 0, latest_state = 0,
                     saved_checkpoints = []\<rparr>),
      node_count = 0, hist_count = 0, now = 0\<rparr>"

definition no_ingredients :: "'v LinkedChainIngredients" where
  "no_ingredients =
     \<lparr>i_origin = None, i_parent = None, i_next = None, i_data = None, i_metadata = None,
      i_is_snapshot = None, i_history = None\<rparr>"

text \<open>\<open>new LinkedChain({data: {value: 0}, metadata: {title: "Root"}})\<close>: node 0, history 0.\<close>

definition root_ingredients :: "int LinkedChainIngredients" where
  "root_ingredients =
     no_ingredients\<lparr>i_data := Some [(''value'', 0)],
       i_metadata := Some \<lparr>m_id = None, m_title = Some ''Root'', m_description = None,
                           m_extra = None\<rparr>\<rparr>"

definition root_store :: "int state" where
  "root_store = fst (new_LinkedChain empty_store root_ingredients)"

text \<open>The root node after two raw deltas have been recorded in its history.\<close>

definition two_entries_store :: "int state" where
  "two_entries_store =
     add_entry (add_entry root_store 0 (Partial [(''value'', 1)])) 0 (Partial [(''name'', 7)])"

text \<open>The root node and node 1 pointing at each other with \<open>next\<close>.\<close>

definition two_cycle_store :: "int state" where
  "two_cycle_store = set_next (set_next root_store 0 (Some 1) False) 1 (Some 0) False"

text \<open>
  \<open>same_fields p ld\<close>: every field of the payload \<open>p\<close> has the identical value in \<open>ld\<close>.
\<close>

definition same_fields :: "'v obj \<Rightarrow> 'v obj \<Rightarrow> bool" where
  "same_fields p ld = list_all (\<lambda>(k, v). map_of ld k = Some v) p"

text \<open>
  The node \<open>rebuild_at\<close> replays from, and the index of the first entry it replays: the
  nearest checkpoint at or before the index, or \<open>original_state\<close> from the start.
\<close>

definition rebuild_base :: "'v state \<Rightarrow> haddr \<Rightarrow> nat \<Rightarrow> addr \<times> nat" where
  "rebuild_base s h idx =
     (case find_checkpoint (timeline (hists s h)) idx of
        Some (c, jumpIdx) \<Rightarrow> (c, Suc jumpIdx)
      | None \<Rightarrow> (original_state (hists s h), 0))"

text \<open>\<open>root.update({data: {value: 1}, metadata: {title: "New"}})\<close>.\<close>

definition both_ingredients :: "int LinkedChainIngredients" where
  "both_ingredients =
     no_ingredients\<lparr>i_data := Some [(''value'', 1)],
       i_metadata := Some \<lparr>m_id = None, m_title = Some ''New'', m_description = None,
                           m_extra = None\<rparr>\<rparr>"

text \<open>\<open>update({data: {value: 0}})\<close>: the payload the root node was built with.\<close>

definition same_ingredients :: "int LinkedChainIngredients" where
  "same_ingredients = no_ingredients\<lparr>i_data := Some [(''value'', 0)]\<rparr>"

text \<open>
  A second node beside the root, \<open>new LinkedChain({data: {value: 5}, metadata: {title:
  "Root"}})\<close>: node 4, history 1; then \<open>root.add_link(other)\<close>.
\<close>

definition other_ingredients :: "int LinkedChainIngredients" where
  "other_ingredients = root_ingredients\<lparr>i_data := Some [(''value'', 5)]\<rparr>"

definition pair_store :: "int state" where
  "pair_store = fst (new_LinkedChain root_store other_ingredients)"

definition linked_store :: "int state" where
  "linked_store = add_link pair_store 0 4"

text \<open>
  \<open>new LinkedChain({})\<close>, a node without a payload: node 0, history 0.  Beside it
  \<open>new LinkedChain({metadata: {title: "L"}})\<close>, node 4, and \<open>node.add_link(other)\<close>.
\<close>

definition dataless_store :: "int state" where
  "dataless_store = fst (new_LinkedChain empty_store no_ingredients)"

definition titled_ingredients :: "int LinkedChainIngredients" where
  "titled_ingredients =
     no_ingredients\<lparr>i_metadata := Some \<lparr>m_id = None, m_title = Some ''L'', m_description = None,
                                          m_extra = None\<rparr>\<rparr>"

definition dataless_pair_store :: "int state" where
  "dataless_pair_store = fst (new_LinkedChain dataless_store titled_ingredients)"

definition titled_link_store :: "int state" where
  "titled_link_store = add_link dataless_pair_store 0 4"

text \<open>The node without a payload after \<open>node.update({metadata: {title: "B"}})\<close>.\<close>

definition retitle_ingredients :: "int LinkedChainIngredients" where
  "retitle_ingredients =
     no_ingredients\<lparr>i_metadata := Some \<lparr>m_id = None, m_title = Some ''B'', m_description = None,
                                          m_extra = None\<rparr>\<rparr>"

definition retitled_store :: "int state" where
  "retitled_store = update dataless_store 0 retitle_ingredients"

section \<open>Replaying a timeline\<close>

text \<open>
  \<open>replay_data d0 es i\<close>: the payload obtained from \<open>d0\<close> by applying, in timeline
  order, the \<open>data_delta\<close> of every entry of \<open>es\<close> up to index \<open>i\<close>.
  \<open>replay_from dc es j i\<close>: the payload obtained from \<open>dc\<close>, the payload of a checkpoint
  at index \<open>j\<close>, by applying the entries after \<open>j\<close> up to \<open>i\<close>.
\<close>

definition replay_data :: "'v obj \<Rightarrow> 'v HistoryEntry list \<Rightarrow> nat \<Rightarrow> 'v obj" where
  "replay_data d0 es i = foldl entry_assign d0 (take (Suc i) es)"

definition replay_from :: "'v obj \<Rightarrow> 'v HistoryEntry list \<Rightarrow> nat \<Rightarrow> nat \<Rightarrow> 'v obj" where
  "replay_from dc es j i = foldl entry_assign dc (take (i - j) (drop (Suc j) es))"

text \<open>
  The operations by which a live node \<open>a\<close> and its history \<open>h\<close> evolve: the node's own
  mutators, reverting and branching included, and entries and checkpoints of
  \<open>latest_state\<close> added to the history.  (\<open>add_checkpoint\<close> of an arbitrary node is not
  among them.)
\<close>

fun lineage_op :: "addr \<Rightarrow> haddr \<Rightarrow> 'v operation \<Rightarrow> bool" where
  "lineage_op a h (Update x ing) = (x = a)"
| "lineage_op a h (UpdateMetadata x m) = (x = a)"
| "lineage_op a h (SetNext x l r) = (x = a)"
| "lineage_op a h (SetPrevious x l r) = (x = a)"
| "lineage_op a h (AddLink x l) = (x = a)"
| "lineage_op a h (RevertToHistory x i) = (x = a)"
| "lineage_op a h (BranchFromHistory x i) = (x = a)"
| "lineage_op a h (RebuildAt x i) = (x = a)"
| "lineage_op a h (AddEntry k it) = (k = h)"
| "lineage_op a h (SaveCheckpoint k) = (k = h)"
| "lineage_op a h _ = False"

text \<open>
  The invariant of such a history, for a node built with payload \<open>d0\<close>: \<open>original_state\<close>
  holds \<open>d0\<close>, \<open>latest_state\<close> holds the replay of the whole timeline, every checkpoint
  holds the replay up to its own entry, and the live node, \<open>latest_state\<close> and the
  checkpoints are different objects.
\<close>

definition lineage_inv :: "'v state \<Rightarrow> addr \<Rightarrow> haddr \<Rightarrow> 'v obj \<Rightarrow> bool" where
  "lineage_inv s a h d0 =
     (let H = hists s h; es = timeline H in
      history s a = h \<and> h < hist_count s \<and> a < node_count s \<and>
      original_state H < node_count s \<and> latest_state H < node_count s \<and>
      original_state H \<noteq> latest_state H \<and> a \<noteq> original_state H \<and> a \<noteq> latest_state H \<and>
      n_data (nodes s (original_state H)) = Some d0 \<and>
      n_data (nodes s (latest_state H)) = Some (foldl entry_assign d0 es) \<and>
      (\<forall>j < length es.
         case checkpoint (es ! j) of
           None \<Rightarrow> True
         | Some c \<Rightarrow> c < node_count s \<and> c \<noteq> latest_state H \<and> c \<noteq> a \<and>
               n_data (nodes s c) = Some (replay_data d0 es j)))"

text \<open>
  The root node after a raw delta, a checkpoint and another raw delta; and the pair of
  nodes after \<open>root.history().add_checkpoint(other)\<close>.
\<close>

definition replayed_store :: "int state" where
  "replayed_store =
     perform_all (fst (new_LinkedChain empty_store root_ingredients))
       [AddEntry 0 (Partial [(''value'', 1)]), SaveCheckpoint 0, AddEntry 0 (Partial [(''name'', 7)])]"

definition checkpointed_store :: "int state" where
  "checkpointed_store = add_checkpoint pair_store 0 4"

section \<open>Frame and effect lemmas\<close>

text \<open>
  What each method reads and writes, field by field and object by object, and how
  \<open>Object.assign\<close> and the index iterations relate to maps and folds.
\<close>

lemma map_of_object_assign:
  "distinct (map fst source) \<Longrightarrow> map_of (object_assign target source) = map_of target ++ map_of source"
proof (induction source arbitrary: target)
  case Nil
  then show ?case by (simp add: object_assign_def)
next
  case (Cons p ps)
  obtain k v where p: "p = (k, v)" by (cases p)
  from Cons.prems p have nk: "k \<notin> fst ` set ps" and d: "distinct (map fst ps)" by auto
  have "object_assign target (p # ps) = object_assign (AList.update k v target) ps"
    by (simp add: object_assign_def p)
  then have "map_of (object_assign target (p # ps)) = (map_of target)(k \<mapsto> v) ++ map_of ps"
    using Cons.IH [OF d, of "AList.update k v target"] by (simp only: AList.update_conv')
  also have "\<dots> = map_of target ++ map_of (p # ps)"
  proof -
    have "map_of ps k = None" using nk by (simp add: map_of_eq_None_iff)
    then show ?thesis by (auto simp: p map_add_def fun_eq_iff split: option.splits)
  qed
  finally show ?case .
qed

lemma distinct_object_assign:
  "distinct (map fst target) \<Longrightarrow> distinct (map fst (object_assign target source))"
  by (induction source arbitrary: target) (auto simp: object_assign_def AList.distinct_update)

lemma delta_loop_foldl:
  "e < length es \<Longrightarrow> delta_loop es i e delta = foldl entry_assign delta (take (Suc e - i) (drop i es))"
proof (induction es i e delta rule: delta_loop.induct)
  case (1 es i e delta)
  show ?case
  proof (cases "i \<le> e")
    case True
    with "1.prems" have il: "i < length es" by simp
    have sl: "take (Suc e - i) (drop i es) = es ! i # take (Suc e - Suc i) (drop (Suc i) es)"
      using True il by (simp add: Suc_diff_le Cons_nth_drop_Suc [symmetric])
    show ?thesis
    proof -
      have "delta_loop es i e delta = delta_loop es (Suc i) e (entry_assign delta (es ! i))"
        using True il by (subst delta_loop.simps) (simp add: entry_assign_def)
      also have "\<dots> = foldl entry_assign (entry_assign delta (es ! i))
                          (take (Suc e - Suc i) (drop (Suc i) es))"
      proof -
        have "(if i < length es
               then (case data_delta (es ! i) of Some d \<Rightarrow> object_assign delta d | None \<Rightarrow> delta)
               else delta) = entry_assign delta (es ! i)"
          using il by (simp add: entry_assign_def)
        with "1.IH" [OF True "1.prems"] show ?thesis by simp
      qed
      finally show ?thesis by (simp add: sl)
    qed
  next
    case False
    then show ?thesis by (subst delta_loop.simps) simp
  qed
qed

lemma upd_node_sel [simp]:
  "nodes (upd_node s a f) x = (if x = a then f (nodes s a) else nodes s x)"
  "hists (upd_node s a f) = hists s"
  "node_count (upd_node s a f) = node_count s"
  "hist_count (upd_node s a f) = hist_count s"
  "now (upd_node s a f) = now s"
  by (simp_all add: upd_node_def)

lemma upd_hist_sel [simp]:
  "hists (upd_hist s h g) k = (if k = h then g (hists s h) else hists s k)"
  "nodes (upd_hist s h g) = nodes s"
  "node_count (upd_hist s h g) = node_count s"
  "hist_count (upd_hist s h g) = hist_count s"
  "now (upd_hist s h g) = now s"
  by (simp_all add: upd_hist_def)

lemma assign_node_metadata_sel [simp]:
  "n_origin (assign_node_metadata d n) = n_origin n"
  "n_data (assign_node_metadata d n) = n_data n"
  "n_previous (assign_node_metadata d n) = n_previous n"
  "n_next (assign_node_metadata d n) = n_next n"
  "n_progeny (assign_node_metadata d n) = n_progeny n"
  "n_ancestors (assign_node_metadata d n) = n_ancestors n"
  "n_chain_link_history (assign_node_metadata d n) = n_chain_link_history n"
  "n_is_snapshot (assign_node_metadata d n) = n_is_snapshot n"
  by (simp_all add: assign_node_metadata_def split: option.split)

lemma add_entry_counts [simp]:
  "node_count (add_entry s h it) = node_count s"
  "hist_count (add_entry s h it) = hist_count s"
  "now (add_entry s h it) = now s"
  by (simp_all add: add_entry_def Let_def split: item.split option.split)

lemma add_entry_links [simp]:
  "n_origin (nodes (add_entry s h it) x) = n_origin (nodes s x)"
  "n_previous (nodes (add_entry s h it) x) = n_previous (nodes s x)"
  "n_next (nodes (add_entry s h it) x) = n_next (nodes s x)"
  "n_progeny (nodes (add_entry s h it) x) = n_progeny (nodes s x)"
  "n_ancestors (nodes (add_entry s h it) x) = n_ancestors (nodes s x)"
  "n_chain_link_history (nodes (add_entry s h it) x) = n_chain_link_history (nodes s x)"
  "n_is_snapshot (nodes (add_entry s h it) x) = n_is_snapshot (nodes s x)"
  by (simp_all add: add_entry_def Let_def split: item.split option.split)

lemma add_entry_hist_fields [simp]:
  "original_state (hists (add_entry s h it) k) = original_state (hists s k)"
  "latest_state (hists (add_entry s h it) k) = latest_state (hists s k)"
  "saved_checkpoints (hists (add_entry s h it) k) = saved_checkpoints (hists s k)"
  by (simp_all add: add_entry_def Let_def split: item.split option.split)

lemma add_entry_other_hist: "k \<noteq> h \<Longrightarrow> hists (add_entry s h it) k = hists s k"
  by (simp add: add_entry_def Let_def split: item.split option.split)

lemma add_entry_other_node:
  "x \<noteq> latest_state (hists s h) \<Longrightarrow> nodes (add_entry s h it) x = nodes s x"
  by (simp add: add_entry_def Let_def split: item.split option.split)

lemma history_add_entry [simp]: "history (add_entry s h it) x = history s x"
  by (simp add: history_def)

lemma set_next_counts [simp]:
  "node_count (set_next s a l r) = node_count s"
  "hist_count (set_next s a l r) = hist_count s"
  by (simp_all add: set_next_def Let_def split: option.split)

lemma set_previous_counts [simp]:
  "node_count (set_previous s a l r) = node_count s"
  "hist_count (set_previous s a l r) = hist_count s"
  by (simp_all add: set_previous_def Let_def split: option.split)

lemma set_next_links:
  "n_next (nodes (set_next s a l r) x) = (if x = a then l else n_next (nodes s x))"
  "n_previous (nodes (set_next s a l r) x) = n_previous (nodes s x)"
  "n_chain_link_history (nodes (set_next s a l r) x) = n_chain_link_history (nodes s x)"
  "n_origin (nodes (set_next s a l r) x) = n_origin (nodes s x)"
  by (simp_all add: set_next_def Let_def split: option.split)

lemma set_previous_links:
  "n_previous (nodes (set_previous s a l r) x) = (if x = a then l else n_previous (nodes s x))"
  "n_next (nodes (set_previous s a l r) x) = n_next (nodes s x)"
  "n_chain_link_history (nodes (set_previous s a l r) x) = n_chain_link_history (nodes s x)"
  "n_origin (nodes (set_previous s a l r) x) = n_origin (nodes s x)"
  by (simp_all add: set_previous_def Let_def split: option.split)

lemma set_next_sets:
  "n_progeny (nodes (set_next s a l r) x) =
     (case l of Some b \<Rightarrow> (if x = a then insert b (n_progeny (nodes s x)) else n_progeny (nodes s x))
      | None \<Rightarrow> n_progeny (nodes s x))"
  "n_ancestors (nodes (set_next s a l r) x) =
     (case l of Some b \<Rightarrow> (if x = b then insert a (n_ancestors (nodes s x)) else n_ancestors (nodes s x))
      | None \<Rightarrow> n_ancestors (nodes s x))"
  by (simp_all add: set_next_def Let_def split: option.split)

lemma set_previous_sets:
  "n_ancestors (nodes (set_previous s a l r) x) =
     (case l of Some b \<Rightarrow> (if x = a then insert b (n_ancestors (nodes s x)) else n_ancestors (nodes s x))
      | None \<Rightarrow> n_ancestors (nodes s x))"
  "n_progeny (nodes (set_previous s a l r) x) =
     (case l of Some b \<Rightarrow> (if x = b then insert a (n_progeny (nodes s x)) else n_progeny (nodes s x))
      | None \<Rightarrow> n_progeny (nodes s x))"
  by (simp_all add: set_previous_def Let_def split: option.split)

lemma iterate_loop_ends:
  assumes "chain_at s d cur n = None \<or> chain_at s d cur n = Some this"
    and "cur \<noteq> Some this"
  shows "\<exists>xs. iterate_loop s d this cur = Some xs \<and> this \<notin> set xs \<and> length xs \<le> n"
  using assms
proof (induction n arbitrary: cur)
  case 0
  then have "cur = None" by simp
  then show ?case by (subst iterate_loop.simps) simp
next
  case (Suc n)
  show ?case
  proof (cases cur)
    case None
    then show ?thesis by (subst iterate_loop.simps) simp
  next
    case (Some c)
    with Suc.prems have c: "c \<noteq> this" by simp
    show ?thesis
    proof (cases "neighbour s d c = Some this")
      case True
      with Some c show ?thesis by (subst iterate_loop.simps) simp
    next
      case False
      from Suc.prems(1) Some
      have "chain_at s d (neighbour s d c) n = None \<or> chain_at s d (neighbour s d c) n = Some this"
        by simp
      from Suc.IH [OF this False] obtain xs where
        xs: "iterate_loop s d this (neighbour s d c) = Some xs" "this \<notin> set xs" "length xs \<le> n"
        by blast
      have "iterate_loop s d this cur = Some (c # xs)"
        using Some False xs(1) by (subst iterate_loop.simps) simp
      with xs c show ?thesis by simp
    qed
  qed
qed

lemma init_branching_sets_frame [simp]:
  "hists (init_branching_sets s a) = hists s"
  "node_count (init_branching_sets s a) = node_count s"
  "hist_count (init_branching_sets s a) = hist_count s"
  "now (init_branching_sets s a) = now s"
  "n_origin (nodes (init_branching_sets s a) x) = n_origin (nodes s x)"
  "n_metadata (nodes (init_branching_sets s a) x) = n_metadata (nodes s x)"
  "n_data (nodes (init_branching_sets s a) x) = n_data (nodes s x)"
  "n_previous (nodes (init_branching_sets s a) x) = n_previous (nodes s x)"
  "n_next (nodes (init_branching_sets s a) x) = n_next (nodes s x)"
  "n_chain_link_history (nodes (init_branching_sets s a) x) = n_chain_link_history (nodes s x)"
  "n_is_snapshot (nodes (init_branching_sets s a) x) = n_is_snapshot (nodes s x)"
  by (simp_all add: init_branching_sets_def Let_def split: option.split)

lemma metadata_init_branching_sets [simp]:
  "metadata (nodes (init_branching_sets s a) x) = metadata (nodes s x)"
  by (simp add: metadata_def)

lemma create_snapshot_link_frame [simp]:
  "snd (create_snapshot_link s h link) = node_count s"
  "hists (fst (create_snapshot_link s h link)) = hists s"
  "node_count (fst (create_snapshot_link s h link)) = Suc (node_count s)"
  "hist_count (fst (create_snapshot_link s h link)) = hist_count s"
  "now (fst (create_snapshot_link s h link)) = now s"
  by (simp_all add: create_snapshot_link_def assign_fields_def Let_def)

lemma create_snapshot_link_nodes:
  "n_data (nodes (fst (create_snapshot_link s h link)) x) =
     (if x = node_count s then n_data (nodes s link) else n_data (nodes s x))"
  "n_metadata (nodes (fst (create_snapshot_link s h link)) x) =
     (if x = node_count s then Some (metadata (nodes s link)) else n_metadata (nodes s x))"
  "n_origin (nodes (fst (create_snapshot_link s h link)) x) =
     (if x = node_count s then n_origin (nodes s link) else n_origin (nodes s x))"
  "n_previous (nodes (fst (create_snapshot_link s h link)) x) =
     (if x = node_count s then n_previous (nodes s link) else n_previous (nodes s x))"
  "n_next (nodes (fst (create_snapshot_link s h link)) x) =
     (if x = node_count s then n_next (nodes s link) else n_next (nodes s x))"
  "n_chain_link_history (nodes (fst (create_snapshot_link s h link)) x) =
     (if x = node_count s then h else n_chain_link_history (nodes s x))"
  "n_is_snapshot (nodes (fst (create_snapshot_link s h link)) x) =
     (if x = node_count s then True else n_is_snapshot (nodes s x))"
  by (simp_all add: create_snapshot_link_def assign_fields_def Let_def)

lemma metadata_create_snapshot_link:
  "metadata (nodes (fst (create_snapshot_link s h link)) x) =
     (if x = node_count s then metadata (nodes s link) else metadata (nodes s x))"
  by (simp add: metadata_def create_snapshot_link_nodes)

lemma add_checkpoint_frame [simp]:
  "nodes (add_checkpoint s h link) = nodes (fst (create_snapshot_link s h link))"
  "node_count (add_checkpoint s h link) = Suc (node_count s)"
  "hist_count (add_checkpoint s h link) = hist_count s"
  "now (add_checkpoint s h link) = now s"
  by (simp_all add: add_checkpoint_def case_prod_beta)

lemma add_checkpoint_hists:
  "hists (add_checkpoint s h link) k =
     (if k = h
      then (hists s h)\<lparr>timeline := timeline (hists s h) @
             [\<lparr>timestamp = now s, data_delta = None, metadata_delta = None,
               checkpoint = Some (node_count s)\<rparr>]\<rparr>
      else hists s k)"
  by (simp add: add_checkpoint_def case_prod_beta)

lemma new_LinkedChainHistory_frame [simp]:
  "snd (new_LinkedChainHistory s link) = hist_count s"
  "node_count (fst (new_LinkedChainHistory s link)) = node_count s + 3"
  "hist_count (fst (new_LinkedChainHistory s link)) = Suc (hist_count s)"
  "now (fst (new_LinkedChainHistory s link)) = now s"
  by (simp_all add: new_LinkedChainHistory_def Let_def case_prod_beta)

lemma new_LinkedChainHistory_hists:
  "hists (fst (new_LinkedChainHistory s link)) k =
     (if k = hist_count s
      then \<lparr>timeline = [\<lparr>timestamp = now s, data_delta = None, metadata_delta = None,
                          checkpoint = Some (node_count s + 2)\<rparr>],
            original_state = node_count s, latest_state = node_count s + 1,
            saved_checkpoints = []\<rparr>
      else hists s k)"
  by (simp add: new_LinkedChainHistory_def Let_def case_prod_beta add_checkpoint_hists)

lemma new_LinkedChainHistory_nodes:
  "n_data (nodes (fst (new_LinkedChainHistory s link)) x) =
     (if x \<in> {node_count s, node_count s + 1, node_count s + 2}
      then n_data (nodes s link) else n_data (nodes s x))"
  "n_metadata (nodes (fst (new_LinkedChainHistory s link)) x) =
     (if x \<in> {node_count s, node_count s + 1, node_count s + 2}
      then Some (metadata (nodes s link)) else n_metadata (nodes s x))"
  "n_chain_link_history (nodes (fst (new_LinkedChainHistory s link)) x) =
     (if x \<in> {node_count s, node_count s + 1, node_count s + 2}
      then hist_count s else n_chain_link_history (nodes s x))"
  "n_origin (nodes (fst (new_LinkedChainHistory s link)) x) =
     (if x \<in> {node_count s, node_count s + 1, node_count s + 2}
      then n_origin (nodes s link) else n_origin (nodes s x))"
  by (simp_all add: new_LinkedChainHistory_def Let_def case_prod_beta create_snapshot_link_nodes
      metadata_create_snapshot_link metadata_def)

lemma new_LinkedChain_snd [simp]: "snd (new_LinkedChain s ing) = node_count s"
  by (simp add: new_LinkedChain_def assign_fields_def Let_def case_prod_beta
      split: option.split bool.split)

lemma new_LinkedChain_own:
  assumes "own_history ing"
  shows "new_LinkedChain s ing =
     (let (s1, this) = assign_fields s ing 0;
          (s2, h) = new_LinkedChainHistory s1 this;
          s3 = upd_node s2 this (\<lambda>n. n\<lparr>n_chain_link_history := h\<rparr>)
      in (init_branching_sets s3 this, this))"
proof (cases "i_is_snapshot ing")
  case None
  then show ?thesis by (simp add: new_LinkedChain_def)
next
  case (Some b)
  show ?thesis
  proof (cases "i_history ing")
    case None
    with Some show ?thesis by (simp add: new_LinkedChain_def split: bool.split)
  next
    case (Some h)
    with assms have "i_is_snapshot ing \<noteq> Some True" by (simp add: own_history_def)
    with \<open>i_is_snapshot ing = Some b\<close> have "b = False" by simp
    with \<open>i_is_snapshot ing = Some b\<close> Some show ?thesis by (simp add: new_LinkedChain_def)
  qed
qed

lemma new_LinkedChain_fresh_frame:
  assumes "own_history ing"
  shows "node_count (fst (new_LinkedChain s ing)) = node_count s + 4"
    and "hist_count (fst (new_LinkedChain s ing)) = Suc (hist_count s)"
    and "now (fst (new_LinkedChain s ing)) = now s"
    and "history (fst (new_LinkedChain s ing)) (node_count s) = hist_count s"
  by (simp_all add: new_LinkedChain_own [OF assms] assign_fields_def Let_def case_prod_beta
      history_def)

lemma new_LinkedChain_fresh_hists:
  assumes "own_history ing"
  shows "hists (fst (new_LinkedChain s ing)) k =
     (if k = hist_count s
      then \<lparr>timeline = [\<lparr>timestamp = now s, data_delta = None, metadata_delta = None,
                          checkpoint = Some (node_count s + 3)\<rparr>],
            original_state = node_count s + 1, latest_state = node_count s + 2,
            saved_checkpoints = []\<rparr>
      else hists s k)"
  by (simp add: new_LinkedChain_own [OF assms] assign_fields_def Let_def case_prod_beta
      new_LinkedChainHistory_hists)

lemma new_LinkedChain_fresh_data:
  assumes "own_history ing"
  shows "n_data (nodes (fst (new_LinkedChain s ing)) x) =
     (if x \<in> {node_count s, node_count s + 1, node_count s + 2, node_count s + 3}
      then i_data ing else n_data (nodes s x))"
  by (simp add: new_LinkedChain_own [OF assms] assign_fields_def Let_def case_prod_beta
      new_LinkedChainHistory_nodes)

lemma new_LinkedChain_fresh_metadata:
  assumes "own_history ing"
  shows "n_metadata (nodes (fst (new_LinkedChain s ing)) x) =
     (if x = node_count s then i_metadata ing
      else if x \<in> {node_count s + 1, node_count s + 2, node_count s + 3}
      then Some (ingredients_metadata ing) else n_metadata (nodes s x))"
  by (simp add: new_LinkedChain_own [OF assms] assign_fields_def Let_def case_prod_beta
      new_LinkedChainHistory_nodes metadata_def ingredients_metadata_def
     )

lemma new_LinkedChain_fresh_origin:
  assumes "own_history ing"
  shows "n_origin (nodes (fst (new_LinkedChain s ing)) x) =
     (if x \<in> {node_count s, node_count s + 1, node_count s + 2, node_count s + 3}
      then i_origin ing else n_origin (nodes s x))"
  by (simp add: new_LinkedChain_own [OF assms] assign_fields_def Let_def case_prod_beta
      new_LinkedChainHistory_nodes)

lemma new_LinkedChain_fresh_history_field:
  assumes "own_history ing"
  shows "n_chain_link_history (nodes (fst (new_LinkedChain s ing)) x) =
     (if x \<in> {node_count s, node_count s + 1, node_count s + 2, node_count s + 3}
      then hist_count s else n_chain_link_history (nodes s x))"
  by (simp add: new_LinkedChain_own [OF assms] assign_fields_def Let_def case_prod_beta
      new_LinkedChainHistory_nodes)

lemma grows_refl [simp]: "grows s s"
  by (simp add: grows_def)

lemma grows_trans: "grows s t \<Longrightarrow> grows t u \<Longrightarrow> grows s u"
  unfolding grows_def by (meson le_trans less_le_trans subset_trans)

lemma grows_add_entry: "grows s (add_entry s h it)"
  by (simp add: grows_def)

lemma grows_set_next: "grows s (set_next s a l r)"
  by (auto simp: grows_def set_next_sets split: option.split)

lemma grows_set_previous: "grows s (set_previous s a l r)"
  by (auto simp: grows_def set_previous_sets split: option.split)

lemma grows_upd_node:
  assumes "\<And>n. n_progeny n \<subseteq> n_progeny (f n)" "\<And>n. n_ancestors n \<subseteq> n_ancestors (f n)"
  shows "grows s (upd_node s a f)"
  using assms by (simp add: grows_def)

lemma grows_upd_hist: "grows s (upd_hist s h g)"
  by (simp add: grows_def)

lemma grows_init_branching_sets: "grows s (init_branching_sets s a)"
  by (auto simp: grows_def init_branching_sets_def Let_def split: option.split)

lemma grows_assign_fields: "grows s (fst (assign_fields s ing h))"
  by (simp add: grows_def assign_fields_def Let_def)

lemma grows_create_snapshot_link: "grows s (fst (create_snapshot_link s h link))"
  unfolding create_snapshot_link_def Let_def case_prod_beta fst_conv
  by (rule grows_trans [OF grows_assign_fields grows_init_branching_sets])

lemma grows_add_checkpoint: "grows s (add_checkpoint s h link)"
  unfolding add_checkpoint_def case_prod_beta Let_def
  by (rule grows_trans [OF grows_create_snapshot_link grows_upd_hist])

lemma grows_save_checkpoint: "grows s (save_checkpoint s h)"
  unfolding save_checkpoint_def Let_def case_prod_beta
  by (rule grows_trans [OF grows_create_snapshot_link grows_trans [OF grows_upd_hist grows_upd_hist]])

lemma grows_alloc_hist: "grows s (s\<lparr>hists := hs, hist_count := c\<rparr>)"
  by (simp add: grows_def)

lemmas grows_then =
  grows_trans [OF _ grows_add_entry] grows_trans [OF _ grows_set_next]
  grows_trans [OF _ grows_set_previous] grows_trans [OF _ grows_upd_hist]
  grows_trans [OF _ grows_init_branching_sets] grows_trans [OF _ grows_assign_fields]
  grows_trans [OF _ grows_create_snapshot_link] grows_trans [OF _ grows_add_checkpoint]
  grows_trans [OF _ grows_save_checkpoint] grows_trans [OF _ grows_alloc_hist]

lemma grows_new_LinkedChainHistory: "grows s (fst (new_LinkedChainHistory s link))"
  unfolding new_LinkedChainHistory_def Let_def case_prod_beta fst_conv
  by (intro grows_then grows_refl)

lemma grows_then_set_history:
  "grows s t \<Longrightarrow> grows s (upd_node t a (\<lambda>n. n\<lparr>n_chain_link_history := h\<rparr>))"
  by (erule grows_trans) (simp add: grows_def)

lemma grows_new_LinkedChain: "grows s (fst (new_LinkedChain s ing))"
proof (cases "own_history ing")
  case True
  show ?thesis
    unfolding new_LinkedChain_own [OF True] Let_def case_prod_beta fst_conv
    by (intro grows_then grows_then_set_history grows_trans [OF _ grows_new_LinkedChainHistory]
        grows_refl)
next
  case False
  then obtain h where "i_is_snapshot ing = Some True" "i_history ing = Some h"
    by (auto simp: own_history_def)
  then show ?thesis
    by (simp add: new_LinkedChain_def case_prod_beta
        grows_trans [OF grows_assign_fields grows_init_branching_sets])
qed

lemma apply_entry_sets [simp]:
  "node_count (apply_entry s b e) = node_count s"
  "n_progeny (nodes (apply_entry s b e) x) = n_progeny (nodes s x)"
  "n_ancestors (nodes (apply_entry s b e) x) = n_ancestors (nodes s x)"
  by (simp_all add: apply_entry_def Let_def split: option.split)

lemma grows_apply_entry: "grows s (apply_entry s b e)"
  by (simp add: grows_def)

lemma grows_replay_loop: "grows s (fst (replay_loop s es i index b))"
proof (induction s es i index b rule: replay_loop.induct)
  case (1 s es i index b)
  show ?case
  proof (cases "i \<le> index")
    case le: True
    show ?thesis
    proof (cases "i < length es")
      case lt: True
      show ?thesis
      proof (cases "data_delta (es ! i) \<noteq> None \<and> n_data (nodes s b) = None")
        case True
        with le lt show ?thesis by (subst replay_loop.simps) simp
      next
        case False
        have "replay_loop s es i index b = replay_loop (apply_entry s b (es ! i)) es (Suc i) index b"
          using le lt False by (subst replay_loop.simps) auto
        with "1.IH"(1) [OF le lt False] grows_apply_entry [of s b "es ! i"] show ?thesis
          by (auto intro: grows_trans)
      qed
    next
      case False
      have "replay_loop s es i index b = replay_loop s es (Suc i) index b"
        using le False by (subst replay_loop.simps) simp
      with "1.IH"(2) [OF le False] show ?thesis by simp
    qed
  next
    case False
    then show ?thesis by (subst replay_loop.simps) simp
  qed
qed

lemma grows_rebuild_at: "grows s (fst (rebuild_at s h index))"
proof (cases "index < 0 \<or> index \<ge> int (length (timeline (hists s h)))")
  case True
  then show ?thesis by (simp add: rebuild_at_def Let_def)
next
  case False
  obtain c where c: "(case find_checkpoint (timeline (hists s h)) (nat index) of
      Some (c, jumpIdx) \<Rightarrow> c | None \<Rightarrow> original_state (hists s h)) = c" by simp
  obtain st where st: "(case find_checkpoint (timeline (hists s h)) (nat index) of
      Some (c, jumpIdx) \<Rightarrow> Suc jumpIdx | None \<Rightarrow> 0) = st" by simp
  have "fst (rebuild_at s h index) =
        fst (replay_loop (fst (create_snapshot_link s h c)) (timeline (hists s h)) st (nat index)
               (node_count s))"
    using False c st
    by (auto simp: rebuild_at_def Let_def case_prod_beta split: option.split)
  then show ?thesis
    using grows_trans [OF grows_create_snapshot_link grows_replay_loop] by simp
qed

lemma grows_then_upd_node:
  assumes "\<And>n. n_progeny n \<subseteq> n_progeny (f n)" "\<And>n. n_ancestors n \<subseteq> n_ancestors (f n)"
  shows "grows s t \<Longrightarrow> grows s (upd_node t a f)"
  by (erule grows_trans) (rule grows_upd_node [OF assms])

lemma grows_update_metadata: "grows s (update_metadata s a m)"
  unfolding update_metadata_def Let_def
  by (intro grows_then grows_then_upd_node grows_refl) (simp_all add: merge_metadata_def)

lemma grows_update: "grows s (update s a ing)"
proof -
  have 1: "grows s (case i_metadata ing of Some m \<Rightarrow> update_metadata s a m | None \<Rightarrow> s)"
    (is "grows s ?s1")
    by (simp add: grows_update_metadata split: option.split)
  have 2: "grows ?s1 (case i_metadata ing of Some m \<Rightarrow> upd_node ?s1 a (merge_metadata m)
             | None \<Rightarrow> ?s1)" (is "grows _ ?s2")
    by (auto split: option.split intro!: grows_upd_node simp: merge_metadata_def)
  have 3: "grows ?s2 (case i_data ing of Some d \<Rightarrow> upd_node ?s2 a (\<lambda>n. n\<lparr>n_data := Some d\<rparr>)
             | None \<Rightarrow> ?s2)" (is "grows _ ?s3")
    by (auto split: option.split intro!: grows_upd_node)
  have 4: "grows ?s3 (case i_next ing of Some l \<Rightarrow> set_next ?s3 a l False | None \<Rightarrow> ?s3)"
    (is "grows _ ?s4")
    by (auto split: option.split intro!: grows_set_next)
  have 5: "grows ?s4 (case i_parent ing of Some l \<Rightarrow> set_previous ?s4 a l False | None \<Rightarrow> ?s4)"
    (is "grows _ ?s5")
    by (auto split: option.split intro!: grows_set_previous)
  have "update s a ing = add_entry ?s5 (history ?s5 a) (Link a)"
    by (simp add: update_def Let_def)
  with grows_trans [OF grows_trans [OF grows_trans [OF grows_trans [OF 1 2] 3] 4] 5]
  show ?thesis by (simp add: grows_then)
qed

lemma grows_add_link: "grows s (add_link s a b)"
  unfolding add_link_def Let_def
  by (intro grows_then grows_then_upd_node grows_refl) auto

lemma grows_link_next: "grows s (link_next s a b)"
  unfolding link_next_def Let_def
  by (auto intro!: grows_then grows_refl)

lemma grows_link_previous: "grows s (link_previous s a b)"
proof -
  have "grows s (case n_previous (nodes s a) of Some p \<Rightarrow> set_next s p (Some b) True | None \<Rightarrow> s)"
    by (simp add: grows_set_next split: option.split)
  then show ?thesis
    unfolding link_previous_def Let_def
    by (auto intro!: grows_then)
qed

lemma grows_revert_to_history: "grows s (fst (revert_to_history s a i))"
proof -
  obtain s1 r where r: "rebuild_at s (history s a) i = (s1, r)" by (cases "rebuild_at s (history s a) i")
  with grows_rebuild_at [of s "history s a" i] have g: "grows s s1" by simp
  show ?thesis
    unfolding revert_to_history_def Let_def r
    using g by (auto split: sum.split option.split intro!: grows_then grows_then_upd_node)
qed

lemma grows_branch_from_history: "grows s (fst (branch_from_history s a i))"
proof -
  obtain s1 r where r: "rebuild_at s (history s a) i = (s1, r)" by (cases "rebuild_at s (history s a) i")
  with grows_rebuild_at [of s "history s a" i] have g: "grows s s1" by simp
  show ?thesis
    unfolding branch_from_history_def Let_def r
    using g
    by (auto simp: case_prod_beta split: sum.split option.split
        intro!: grows_then grows_trans [OF _ grows_new_LinkedChain])
qed

lemma grows_perform: "grows s (perform s op)"
  by (cases op)
    (simp_all add: grows_set_next grows_set_previous grows_update grows_update_metadata
      grows_link_next grows_link_previous grows_add_link grows_revert_to_history
      grows_branch_from_history grows_rebuild_at grows_add_entry grows_save_checkpoint
      grows_add_checkpoint grows_new_LinkedChain)

lemma grows_perform_all: "grows s (perform_all s ops)"
  unfolding perform_all_def
proof (induction ops arbitrary: s)
  case Nil
  show ?case by simp
next
  case (Cons op ops)
  from grows_trans [OF grows_perform Cons.IH] show ?case by simp
qed

lemma add_entry_Link_skip: "\<not> records s h it \<Longrightarrow> add_entry s h (Link it) = s"
  by (simp add: add_entry_def records_def link_data_delta_def link_meta_delta_def Let_def)

lemma add_entry_Link_timeline:
  "timeline (hists (add_entry s h (Link it)) k) =
     (if k = h \<and> records s h it
      then timeline (hists s h) @
             [\<lparr>timestamp = now s,
               data_delta = Some (case link_data_delta s h it of Some d \<Rightarrow> d | None \<Rightarrow> []),
               metadata_delta = Some (link_meta_delta s h it),
               checkpoint = None\<rparr>]
      else timeline (hists s k))"
  by (simp add: add_entry_def records_def link_data_delta_def link_meta_delta_def Let_def
      split: option.split)

lemma add_entry_Link_data:
  "n_data (nodes (add_entry s h (Link it)) x) =
     (if x = latest_state (hists s h) \<and> records s h it
      then (case link_data_delta s h it of
              Some d \<Rightarrow> map_option (\<lambda>t. object_assign t d) (n_data (nodes s x))
            | None \<Rightarrow> n_data (nodes s x))
      else n_data (nodes s x))"
  by (simp add: add_entry_def records_def link_data_delta_def link_meta_delta_def Let_def
      split: option.split)

lemma add_entry_Link_metadata:
  "n_metadata (nodes (add_entry s h (Link it)) x) =
     (if x = latest_state (hists s h) \<and> records s h it
      then map_option (\<lambda>m. assign_metadata m (link_meta_delta s h it)) (n_metadata (nodes s x))
      else n_metadata (nodes s x))"
  by (simp add: add_entry_def records_def link_data_delta_def link_meta_delta_def Let_def
      assign_node_metadata_def split: option.split)

lemma add_entry_Partial_timeline:
  "timeline (hists (add_entry s h (Partial p)) k) =
     (if k = h
      then timeline (hists s h) @
             [\<lparr>timestamp = now s, data_delta = Some p, metadata_delta = None, checkpoint = None\<rparr>]
      else timeline (hists s k))"
  by (simp add: add_entry_def Let_def split: option.split)

lemma add_entry_Partial_data:
  "n_data (nodes (add_entry s h (Partial p)) x) =
     (if x = latest_state (hists s h)
      then map_option (\<lambda>t. object_assign t p) (n_data (nodes s x))
      else n_data (nodes s x))"
  by (simp add: add_entry_def Let_def split: option.split)

lemma add_entry_Partial_metadata:
  "n_metadata (nodes (add_entry s h (Partial p)) x) = n_metadata (nodes s x)"
  by (simp add: add_entry_def Let_def split: option.split)

lemma foldl_entry_assign_map_of:
  assumes "\<forall>e \<in> set es. \<forall>d. data_delta e = Some d \<longrightarrow> wf_object d"
  shows "map_of (foldl entry_assign acc es) =
         foldl (\<lambda>m d. m ++ map_of d) (map_of acc) (List.map_filter data_delta es)"
  using assms
proof (induction es arbitrary: acc)
  case Nil
  show ?case by (simp add: List.map_filter_simps)
next
  case (Cons e es)
  show ?case
  proof (cases "data_delta e")
    case None
    with Cons show ?thesis by (simp add: List.map_filter_simps entry_assign_def)
  next
    case (Some d)
    with Cons.prems have "wf_object d" by simp
    then have "map_of (entry_assign acc e) = map_of acc ++ map_of d"
      by (simp add: entry_assign_def Some map_of_object_assign wf_object_def)
    with Cons Some show ?thesis by (simp add: List.map_filter_simps)
  qed
qed

lemma empty_store_counts [simp]:
  "node_count empty_store = 0" "hist_count empty_store = 0" "now empty_store = 0"
  by (simp_all add: empty_store_def)

lemma own_history_root [simp]: "own_history root_ingredients"
  by (simp add: own_history_def root_ingredients_def no_ingredients_def)

lemma root_ingredients_sel [simp]:
  "i_data root_ingredients = Some [(''value'', 0)]"
  "ingredients_metadata root_ingredients =
     \<lparr>m_id = None, m_title = Some ''Root'', m_description = None, m_extra = None\<rparr>"
  "i_metadata root_ingredients =
     Some \<lparr>m_id = None, m_title = Some ''Root'', m_description = None, m_extra = None\<rparr>"
  by (simp_all add: root_ingredients_def no_ingredients_def ingredients_metadata_def)

lemmas new_LinkedChain_fresh =
  new_LinkedChain_fresh_frame new_LinkedChain_fresh_hists new_LinkedChain_fresh_data
  new_LinkedChain_fresh_metadata new_LinkedChain_fresh_origin new_LinkedChain_fresh_history_field

lemma root_store_now: "now root_store = 0"
  by (simp add: root_store_def new_LinkedChain_fresh [OF own_history_root])

lemma root_store_facts:
  "node_count root_store = 4"
  "hist_count root_store = 1"
  "history root_store 0 = 0"
  "hists root_store 0 =
     \<lparr>timeline = [\<lparr>timestamp = 0, data_delta = None, metadata_delta = None, checkpoint = Some 3\<rparr>],
      original_state = 1, latest_state = 2, saved_checkpoints = []\<rparr>"
  "n_data (nodes root_store 0) = Some [(''value'', 0)]"
  "n_data (nodes root_store 2) = Some [(''value'', 0)]"
  "metadata (nodes root_store 0) =
     \<lparr>m_id = None, m_title = Some ''Root'', m_description = None, m_extra = None\<rparr>"
  "metadata (nodes root_store 2) =
     \<lparr>m_id = None, m_title = Some ''Root'', m_description = None, m_extra = None\<rparr>"
  using new_LinkedChain_fresh_frame(4) [OF own_history_root, of empty_store]
  by (simp_all add: root_store_def metadata_def new_LinkedChain_fresh [OF own_history_root])

lemma foldl_entry_assign_map_filter:
  "foldl entry_assign acc es = foldl object_assign acc (List.map_filter data_delta es)"
  by (induction es arbitrary: acc)
    (auto simp: List.map_filter_simps entry_assign_def split: option.split)

lemma two_entries_store_timeline:
  "timeline (hists two_entries_store 0) =
     [\<lparr>timestamp = 0, data_delta = None, metadata_delta = None, checkpoint = Some 3\<rparr>,
      \<lparr>timestamp = 0, data_delta = Some [(''value'', 1)], metadata_delta = None, checkpoint = None\<rparr>,
      \<lparr>timestamp = 0, data_delta = Some [(''name'', 7)], metadata_delta = None, checkpoint = None\<rparr>]"
  by (simp add: two_entries_store_def add_entry_Partial_timeline root_store_facts root_store_now)

lemma merge_metadata_sel [simp]:
  "n_origin (merge_metadata m n) = n_origin n"
  "n_data (merge_metadata m n) = n_data n"
  "n_previous (merge_metadata m n) = n_previous n"
  "n_next (merge_metadata m n) = n_next n"
  "n_progeny (merge_metadata m n) = n_progeny n"
  "n_ancestors (merge_metadata m n) = n_ancestors n"
  "n_chain_link_history (merge_metadata m n) = n_chain_link_history n"
  "n_is_snapshot (merge_metadata m n) = n_is_snapshot n"
  by (simp_all add: merge_metadata_def)

lemma metadata_merge_metadata:
  "metadata (merge_metadata m n) =
     \<lparr>m_id = nullish (m_id m) (m_id (metadata n)),
      m_title = nullish (m_title m) (m_title (metadata n)),
      m_description = nullish (m_description m) (m_description (metadata n)),
      m_extra = nullish (m_extra m) (m_extra (metadata n))\<rparr>"
  by (simp add: merge_metadata_def metadata_def)

lemma add_entry_Link_metadata':
  "metadata (nodes (add_entry s h (Link it)) x) =
     (if x = latest_state (hists s h) \<and> records s h it \<and> n_metadata (nodes s x) \<noteq> None
      then assign_metadata (metadata (nodes s x)) (link_meta_delta s h it)
      else metadata (nodes s x))"
  by (auto simp: metadata_def add_entry_Link_metadata split: option.split)

lemma history_upd_node [simp]:
  "history (upd_node s a (merge_metadata m)) x = history s x"
  "history (upd_node s a (\<lambda>n. n\<lparr>n_data := d\<rparr>)) x = history s x"
  "history (upd_node s a (\<lambda>n. n\<lparr>n_progeny := P n\<rparr>)) x = history s x"
  "history (upd_node s a (\<lambda>n. n\<lparr>n_ancestors := A n\<rparr>)) x = history s x"
  by (simp_all add: history_def)

lemma update_both:
  assumes "i_metadata ing = Some m" "i_data ing = Some d" "i_next ing = None" "i_parent ing = None"
  shows "update s this ing =
     (let s1 = add_entry (upd_node s this (merge_metadata m)) (history s this) (Link this);
          s2 = upd_node s1 this (merge_metadata m);
          s3 = upd_node s2 this (\<lambda>n. n\<lparr>n_data := Some d\<rparr>)
      in add_entry s3 (history s this) (Link this))"
  using assms by (simp add: update_def update_metadata_def Let_def)

lemma calculate_delta_same_fields:
  assumes "same_fields p ld"
  shows "calculate_delta ld p = []"
proof -
  have "foldl (\<lambda>delta (key, v). if Some v \<noteq> map_of ld key then AList.update key v delta else delta)
          acc p = acc" for acc
    using assms by (induction p arbitrary: acc) (auto simp: same_fields_def)
  then show ?thesis by (simp add: calculate_delta_def)
qed

lemma metadata_upd_data [simp]:
  "metadata (n\<lparr>n_data := d\<rparr>) = metadata n"
  "metadata (n\<lparr>n_progeny := P\<rparr>) = metadata n"
  "metadata (n\<lparr>n_ancestors := A\<rparr>) = metadata n"
  by (simp_all add: metadata_def)

lemma update_data_only:
  assumes "i_data ing = Some p" "i_metadata ing = None" "i_next ing = None" "i_parent ing = None"
  shows "update s this ing =
     add_entry (upd_node s this (\<lambda>n. n\<lparr>n_data := Some p\<rparr>)) (history s this) (Link this)"
  using assms by (simp add: update_def Let_def)

lemma own_history_other [simp]: "own_history other_ingredients"
  by (simp add: own_history_def other_ingredients_def root_ingredients_def no_ingredients_def)

lemma other_ingredients_sel [simp]:
  "i_data other_ingredients = Some [(''value'', 5)]"
  "ingredients_metadata other_ingredients =
     \<lparr>m_id = None, m_title = Some ''Root'', m_description = None, m_extra = None\<rparr>"
  "i_metadata other_ingredients =
     Some \<lparr>m_id = None, m_title = Some ''Root'', m_description = None, m_extra = None\<rparr>"
  by (simp_all add: other_ingredients_def root_ingredients_def no_ingredients_def
      ingredients_metadata_def)

lemma pair_store_facts:
  "node_count pair_store = 8"
  "history pair_store 0 = 0"
  "hists pair_store 0 = hists root_store 0"
  "n_data (nodes pair_store 0) = Some [(''value'', 0)]"
  "n_data (nodes pair_store 2) = Some [(''value'', 0)]"
  "n_data (nodes pair_store 4) = Some [(''value'', 5)]"
  "metadata (nodes pair_store 0) =
     \<lparr>m_id = None, m_title = Some ''Root'', m_description = None, m_extra = None\<rparr>"
  "metadata (nodes pair_store 2) =
     \<lparr>m_id = None, m_title = Some ''Root'', m_description = None, m_extra = None\<rparr>"
  "metadata (nodes pair_store 4) =
     \<lparr>m_id = None, m_title = Some ''Root'', m_description = None, m_extra = None\<rparr>"
  using root_store_facts(3,7,8)
  by (simp_all add: pair_store_def metadata_def history_def
      new_LinkedChain_fresh [OF own_history_other] root_store_facts(1,2,5,6))

lemma linked_store_facts:
  "history linked_store 0 = 0"
  "latest_state (hists linked_store 0) = 2"
  "length (timeline (hists linked_store 0)) = 2"
  "n_data (nodes linked_store 0) = Some [(''value'', 0)]"
  "n_data (nodes linked_store 2) = Some [(''value'', 5)]"
proof -
  let ?s2 = "upd_node (upd_node pair_store 0 (\<lambda>n. n\<lparr>n_progeny := insert 4 (n_progeny n)\<rparr>))
               4 (\<lambda>n. n\<lparr>n_ancestors := insert 0 (n_ancestors n)\<rparr>)"
  have l: "linked_store = add_entry ?s2 0 (Link 4)"
    by (simp add: linked_store_def add_link_def Let_def pair_store_facts)
  have d: "link_data_delta ?s2 0 4 = Some [(''value'', 5)]"
    by (simp add: link_data_delta_def pair_store_facts root_store_facts calculate_delta_def)
  then have r: "records ?s2 0 4"
    by (simp add: records_def)
  show "history linked_store 0 = 0" "latest_state (hists linked_store 0) = 2"
    "length (timeline (hists linked_store 0)) = 2"
    "n_data (nodes linked_store 0) = Some [(''value'', 0)]"
    "n_data (nodes linked_store 2) = Some [(''value'', 5)]"
    using r d
    by (simp_all add: l add_entry_Link_timeline add_entry_Link_data pair_store_facts
        root_store_facts object_assign_def)
qed

lemma rebuild_at_in_range:
  assumes "0 \<le> index" "index < int (length (timeline (hists s h)))"
  shows "rebuild_at s h index =
     (let s1 = fst (create_snapshot_link s h (fst (rebuild_base s h (nat index))));
          r = replay_loop s1 (timeline (hists s h)) (snd (rebuild_base s h (nat index))) (nat index)
                (node_count s)
      in (fst r, case snd r of Some e \<Rightarrow> Inl e | None \<Rightarrow> Inr (Some (node_count s))))"
  using assms
  by (simp add: rebuild_at_def rebuild_base_def Let_def case_prod_beta split: option.split)

lemma find_checkpoint_Some:
  "find_checkpoint es i = Some (c, j) \<Longrightarrow> j \<le> i \<and> j < length es \<and> checkpoint (es ! j) = Some c"
  by (induction i) (auto split: option.splits if_splits)

lemma apply_entry_data:
  "n_data (nodes (apply_entry s b e) x) =
     (if x = b then map_option (\<lambda>t. entry_assign t e) (n_data (nodes s x)) else n_data (nodes s x))"
  by (cases "n_data (nodes s b)")
    (simp_all add: apply_entry_def Let_def entry_assign_def split: option.split)

lemma replay_loop_data_None:
  "n_data (nodes s b) = None \<Longrightarrow> n_data (nodes (fst (replay_loop s es i index b)) b) = None"
proof (induction s es i index b rule: replay_loop.induct)
  case (1 s es i index b)
  show ?case
  proof (cases "i \<le> index")
    case le: True
    show ?thesis
    proof (cases "i < length es")
      case lt: True
      show ?thesis
      proof (cases "data_delta (es ! i) \<noteq> None \<and> n_data (nodes s b) = None")
        case True
        with le lt "1.prems" show ?thesis by (subst replay_loop.simps) simp
      next
        case False
        have "replay_loop s es i index b = replay_loop (apply_entry s b (es ! i)) es (Suc i) index b"
          using le lt False by (subst replay_loop.simps) auto
        with "1.IH"(1) [OF le lt False] "1.prems" show ?thesis
          by (simp add: apply_entry_data)
      qed
    next
      case False
      have "replay_loop s es i index b = replay_loop s es (Suc i) index b"
        using le False by (subst replay_loop.simps) simp
      with "1.IH"(2) [OF le False] "1.prems" show ?thesis by simp
    qed
  next
    case False
    with "1.prems" show ?thesis by (subst replay_loop.simps) simp
  qed
qed

lemma own_history_no_ingredients [simp]: "own_history no_ingredients"
  by (simp add: own_history_def no_ingredients_def)

lemma no_ingredients_sel [simp]:
  "i_data no_ingredients = None" "i_metadata no_ingredients = None"
  "i_next no_ingredients = None" "i_parent no_ingredients = None"
  "ingredients_metadata no_ingredients =
     \<lparr>m_id = None, m_title = Some '''', m_description = Some '''', m_extra = Some []\<rparr>"
  by (simp_all add: no_ingredients_def ingredients_metadata_def)

lemma dataless_store_facts:
  "node_count dataless_store = 4"
  "hist_count dataless_store = 1"
  "now dataless_store = 0"
  "history dataless_store 0 = 0"
  "hists dataless_store 0 =
     \<lparr>timeline = [\<lparr>timestamp = 0, data_delta = None, metadata_delta = None, checkpoint = Some 3\<rparr>],
      original_state = 1, latest_state = 2, saved_checkpoints = []\<rparr>"
  "n_data (nodes dataless_store 0) = None"
  "n_data (nodes dataless_store (Suc 0)) = None"
  "n_data (nodes dataless_store 2) = None"
  "n_data (nodes dataless_store 3) = None"
  "n_metadata (nodes dataless_store 0) = None"
  "n_metadata (nodes dataless_store 2) =
     Some \<lparr>m_id = None, m_title = Some '''', m_description = Some '''', m_extra = Some []\<rparr>"
  "metadata (nodes dataless_store 0) =
     \<lparr>m_id = None, m_title = Some '''', m_description = Some '''', m_extra = Some []\<rparr>"
  "metadata (nodes dataless_store 2) =
     \<lparr>m_id = None, m_title = Some '''', m_description = Some '''', m_extra = Some []\<rparr>"
  using new_LinkedChain_fresh_frame(4) [OF own_history_no_ingredients, of empty_store]
  by (simp_all add: dataless_store_def metadata_def
      new_LinkedChain_fresh [OF own_history_no_ingredients])

lemma update_counts [simp]:
  "node_count (update_metadata s a m) = node_count s"
  "node_count (update s a ing) = node_count s"
  by (simp_all add: update_def update_metadata_def Let_def split: option.split)

lemma replay_loop_done: "index < i \<Longrightarrow> replay_loop s es i index b = (s, None)"
  by (subst replay_loop.simps) simp

lemma replay_loop_TypeError:
  "i \<le> index \<Longrightarrow> i < length es \<Longrightarrow> data_delta (es ! i) \<noteq> None \<Longrightarrow> n_data (nodes s b) = None
     \<Longrightarrow> replay_loop s es i index b = (s, Some TypeError)"
  by (subst replay_loop.simps) simp

lemma own_history_titled [simp]: "own_history titled_ingredients"
  by (simp add: own_history_def titled_ingredients_def no_ingredients_def)

lemma titled_ingredients_sel [simp]:
  "i_data titled_ingredients = None"
  "i_metadata titled_ingredients =
     Some \<lparr>m_id = None, m_title = Some ''L'', m_description = None, m_extra = None\<rparr>"
  by (simp_all add: titled_ingredients_def no_ingredients_def)

lemma dataless_pair_store_facts:
  "history dataless_pair_store 0 = 0"
  "hists dataless_pair_store 0 = hists dataless_store 0"
  "n_data (nodes dataless_pair_store 0) = None"
  "n_data (nodes dataless_pair_store 2) = None"
  "n_data (nodes dataless_pair_store 4) = None"
  "n_metadata (nodes dataless_pair_store 0) = None"
  "n_metadata (nodes dataless_pair_store 2) =
     Some \<lparr>m_id = None, m_title = Some '''', m_description = Some '''', m_extra = Some []\<rparr>"
  "n_metadata (nodes dataless_pair_store 4) =
     Some \<lparr>m_id = None, m_title = Some ''L'', m_description = None, m_extra = None\<rparr>"
  using dataless_store_facts(4)
  by (simp_all add: dataless_pair_store_def history_def
      new_LinkedChain_fresh [OF own_history_titled] dataless_store_facts)

lemma titled_link_store_facts:
  "history titled_link_store 0 = 0"
  "latest_state (hists titled_link_store 0) = 2"
  "length (timeline (hists titled_link_store 0)) = 2"
  "n_data (nodes titled_link_store 0) = None"
  "n_data (nodes titled_link_store 2) = None"
  "n_metadata (nodes titled_link_store 0) = None"
  "n_metadata (nodes titled_link_store 2) =
     Some \<lparr>m_id = None, m_title = Some ''L'', m_description = None, m_extra = Some []\<rparr>"
proof -
  let ?s2 = "upd_node (upd_node dataless_pair_store 0 (\<lambda>n. n\<lparr>n_progeny := insert 4 (n_progeny n)\<rparr>))
               4 (\<lambda>n. n\<lparr>n_ancestors := insert 0 (n_ancestors n)\<rparr>)"
  have l: "titled_link_store = add_entry ?s2 0 (Link 4)"
    by (simp add: titled_link_store_def add_link_def Let_def dataless_pair_store_facts)
  have d: "link_data_delta ?s2 0 4 = None"
    "link_meta_delta ?s2 0 4 = \<lparr>d_title = Some (Some ''L''), d_description = Some None\<rparr>"
    by (simp_all add: link_data_delta_def link_meta_delta_def dataless_pair_store_facts
        dataless_store_facts metadata_def calculate_metadata_delta_def)
  then have r: "records ?s2 0 4"
    by (simp add: records_def meta_keys_def)
  show "history titled_link_store 0 = 0" "latest_state (hists titled_link_store 0) = 2"
    "length (timeline (hists titled_link_store 0)) = 2"
    "n_data (nodes titled_link_store 0) = None"
    "n_data (nodes titled_link_store 2) = None"
    "n_metadata (nodes titled_link_store 0) = None"
    "n_metadata (nodes titled_link_store 2) =
       Some \<lparr>m_id = None, m_title = Some ''L'', m_description = None, m_extra = Some []\<rparr>"
    using r d
    by (simp_all add: l add_entry_Link_timeline add_entry_Link_data add_entry_Link_metadata
        dataless_pair_store_facts dataless_store_facts assign_metadata_def)
qed

lemma update_metadata_only:
  assumes "i_metadata ing = Some m" "i_data ing = None" "i_next ing = None" "i_parent ing = None"
  shows "update s this ing =
     (let s1 = add_entry (upd_node s this (merge_metadata m)) (history s this) (Link this);
          s2 = upd_node s1 this (merge_metadata m)
      in add_entry s2 (history s this) (Link this))"
  using assms by (simp add: update_def update_metadata_def Let_def)

lemma retitled_store_facts:
  "history retitled_store 0 = 0"
  "node_count retitled_store = 4"
  "timeline (hists retitled_store 0) =
     [\<lparr>timestamp = 0, data_delta = None, metadata_delta = None, checkpoint = Some 3\<rparr>,
      \<lparr>timestamp = 0, data_delta = Some [],
        metadata_delta = Some \<lparr>d_title = Some (Some ''B''), d_description = None\<rparr>,
        checkpoint = None\<rparr>]"
  "n_data (nodes retitled_store 3) = None"
proof -
  let ?m = "\<lparr>m_id = None, m_title = Some ''B'', m_description = None, m_extra = None\<rparr> :: int Metadata"
  let ?s0 = "upd_node dataless_store 0 (merge_metadata ?m)"
  let ?s1 = "add_entry ?s0 0 (Link 0)"
  let ?s2 = "upd_node ?s1 0 (merge_metadata ?m)"
  have i: "i_metadata retitle_ingredients = Some ?m" "i_data retitle_ingredients = None"
    "i_next retitle_ingredients = None" "i_parent retitle_ingredients = None"
    by (simp_all add: retitle_ingredients_def no_ingredients_def)
  have u: "retitled_store = add_entry ?s2 0 (Link 0)"
    by (simp add: retitled_store_def update_metadata_only [OF i] Let_def dataless_store_facts)
  have d0: "link_data_delta ?s0 0 0 = None"
    "link_meta_delta ?s0 0 0 = \<lparr>d_title = Some (Some ''B''), d_description = None\<rparr>"
    by (simp_all add: link_data_delta_def link_meta_delta_def dataless_store_facts
        metadata_merge_metadata nullish_def calculate_metadata_delta_def)
  then have r0: "records ?s0 0 0"
    by (simp add: records_def meta_keys_def)
  have m1: "n_metadata (nodes ?s1 2) =
      Some \<lparr>m_id = None, m_title = Some ''B'', m_description = Some '''', m_extra = Some []\<rparr>"
    using r0 d0 by (simp add: add_entry_Link_metadata dataless_store_facts assign_metadata_def)
  have m1': "metadata (nodes ?s1 2) =
      \<lparr>m_id = None, m_title = Some ''B'', m_description = Some '''', m_extra = Some []\<rparr>"
    using m1 by (simp add: metadata_def)
  have m0: "metadata (nodes ?s1 0) =
      \<lparr>m_id = None, m_title = Some ''B'', m_description = Some '''', m_extra = Some []\<rparr>"
    by (simp add: add_entry_other_node dataless_store_facts metadata_merge_metadata nullish_def)
  have "link_meta_delta ?s2 0 0 = \<lparr>d_title = None, d_description = None\<rparr>"
    using m1' m0
    by (simp add: link_meta_delta_def dataless_store_facts metadata_merge_metadata
        nullish_def calculate_metadata_delta_def)
  moreover have "link_data_delta ?s2 0 0 = None"
    by (simp add: link_data_delta_def dataless_store_facts add_entry_Link_data)
  ultimately have r2: "\<not> records ?s2 0 0"
    by (simp add: records_def meta_keys_def)
  show "history retitled_store 0 = 0" "node_count retitled_store = 4"
    "timeline (hists retitled_store 0) =
     [\<lparr>timestamp = 0, data_delta = None, metadata_delta = None, checkpoint = Some 3\<rparr>,
      \<lparr>timestamp = 0, data_delta = Some [],
        metadata_delta = Some \<lparr>d_title = Some (Some ''B''), d_description = None\<rparr>,
        checkpoint = None\<rparr>]"
    "n_data (nodes retitled_store 3) = None"
    using r0 r2 d0
    by (simp_all add: u add_entry_Link_timeline add_entry_Link_data dataless_store_facts)
qed

section \<open>The history invariant\<close>

text \<open>
  \<open>lineage_inv\<close> holds after construction, every operation of the lineage keeps it, and
  under it \<open>rebuild_at\<close> returns the replay from \<open>original_state\<close>.
\<close>

lemma replay_data_append:
  "j < length es \<Longrightarrow> replay_data d0 (es @ [e]) j = replay_data d0 es j"
  by (simp add: replay_data_def)

lemma replay_data_last:
  "replay_data d0 (es @ [e]) (length es) = entry_assign (foldl entry_assign d0 es) e"
  by (simp add: replay_data_def)

lemma lineage_invD:
  assumes "lineage_inv s a h d0"
  shows "history s a = h" "a < node_count s"
    "original_state (hists s h) < node_count s" "latest_state (hists s h) < node_count s"
    "original_state (hists s h) \<noteq> latest_state (hists s h)"
    "a \<noteq> original_state (hists s h)" "a \<noteq> latest_state (hists s h)"
    "n_data (nodes s (original_state (hists s h))) = Some d0"
    "n_data (nodes s (latest_state (hists s h))) = Some (foldl entry_assign d0 (timeline (hists s h)))"
    "\<And>j c. j < length (timeline (hists s h)) \<Longrightarrow> checkpoint (timeline (hists s h) ! j) = Some c
       \<Longrightarrow> c < node_count s \<and> c \<noteq> latest_state (hists s h) \<and> c \<noteq> a \<and>
           n_data (nodes s c) = Some (replay_data d0 (timeline (hists s h)) j)"
    "h < hist_count s"
  using assms unfolding lineage_inv_def Let_def by (auto split: option.splits)

lemma lineage_invI:
  assumes "history s a = h" "a < node_count s"
    "original_state (hists s h) < node_count s" "latest_state (hists s h) < node_count s"
    "original_state (hists s h) \<noteq> latest_state (hists s h)"
    "a \<noteq> original_state (hists s h)" "a \<noteq> latest_state (hists s h)"
    "n_data (nodes s (original_state (hists s h))) = Some d0"
    "n_data (nodes s (latest_state (hists s h))) = Some (foldl entry_assign d0 (timeline (hists s h)))"
    "\<And>j c. j < length (timeline (hists s h)) \<Longrightarrow> checkpoint (timeline (hists s h) ! j) = Some c
       \<Longrightarrow> c < node_count s \<and> c \<noteq> latest_state (hists s h) \<and> c \<noteq> a \<and>
           n_data (nodes s c) = Some (replay_data d0 (timeline (hists s h)) j)"
    "h < hist_count s"
  shows "lineage_inv s a h d0"
  using assms unfolding lineage_inv_def Let_def by (auto split: option.splits)

lemma inv_frame:
  assumes inv: "lineage_inv s a h d0" and hs: "hists s' h = hists s h"
    and nc: "node_count s \<le> node_count s'" and hc: "hist_count s \<le> hist_count s'"
    and hi: "history s' a = history s a"
    and da: "\<And>x. x \<noteq> a \<Longrightarrow> x < node_count s \<Longrightarrow> n_data (nodes s' x) = n_data (nodes s x)"
  shows "lineage_inv s' a h d0"
proof (rule lineage_invI)
  note D = lineage_invD [OF inv]
  show "history s' a = h" using D(1) hi by simp
  show "h < hist_count s'" using D(11) hc by simp
  show "a < node_count s'" using D(2) nc by simp
  show "original_state (hists s' h) < node_count s'" using D(3) nc hs by simp
  show "latest_state (hists s' h) < node_count s'" using D(4) nc hs by simp
  show "original_state (hists s' h) \<noteq> latest_state (hists s' h)" using D(5) hs by simp
  show "a \<noteq> original_state (hists s' h)" using D(6) hs by simp
  show "a \<noteq> latest_state (hists s' h)" using D(7) hs by simp
  show "n_data (nodes s' (original_state (hists s' h))) = Some d0"
    using D(3,6,8) hs da [of "original_state (hists s h)"] by simp
  show "n_data (nodes s' (latest_state (hists s' h))) =
      Some (foldl entry_assign d0 (timeline (hists s' h)))"
    using D(4,7,9) hs da [of "latest_state (hists s h)"] by simp
  fix j c
  assume "j < length (timeline (hists s' h))" "checkpoint (timeline (hists s' h) ! j) = Some c"
  then have "j < length (timeline (hists s h))" "checkpoint (timeline (hists s h) ! j) = Some c"
    using hs by simp_all
  from D(10) [OF this] nc da [of c] hs
  show "c < node_count s' \<and> c \<noteq> latest_state (hists s' h) \<and> c \<noteq> a \<and>
      n_data (nodes s' c) = Some (replay_data d0 (timeline (hists s' h)) j)"
    by simp
qed

lemma object_assign_Nil [simp]: "object_assign t [] = t"
  by (simp add: object_assign_def)

lemma inv_append_entry:
  assumes inv: "lineage_inv s a h d0"
    and tl: "timeline (hists s' h) = timeline (hists s h) @ [e]"
    and cp: "checkpoint e = None"
    and la: "latest_state (hists s' h) = latest_state (hists s h)"
    and orig: "original_state (hists s' h) = original_state (hists s h)"
    and nc: "node_count s' = node_count s" and hc: "hist_count s' = hist_count s"
    and hi: "history s' a = history s a"
    and ld: "n_data (nodes s' (latest_state (hists s h))) =
        map_option (\<lambda>t. entry_assign t e) (n_data (nodes s (latest_state (hists s h))))"
    and da: "\<And>x. x \<noteq> latest_state (hists s h) \<Longrightarrow> n_data (nodes s' x) = n_data (nodes s x)"
  shows "lineage_inv s' a h d0"
proof (rule lineage_invI)
  note D = lineage_invD [OF inv]
  show "history s' a = h" using D(1) hi by simp
  show "h < hist_count s'" using D(11) hc by simp
  show "a < node_count s'" using D(2) nc by simp
  show "original_state (hists s' h) < node_count s'" using D(3) nc orig by simp
  show "latest_state (hists s' h) < node_count s'" using D(4) nc la by simp
  show "original_state (hists s' h) \<noteq> latest_state (hists s' h)" using D(5) la orig by simp
  show "a \<noteq> original_state (hists s' h)" using D(6) orig by simp
  show "a \<noteq> latest_state (hists s' h)" using D(7) la by simp
  show "n_data (nodes s' (original_state (hists s' h))) = Some d0"
    using D(5,8) orig da [of "original_state (hists s h)"] by simp
  show "n_data (nodes s' (latest_state (hists s' h))) =
      Some (foldl entry_assign d0 (timeline (hists s' h)))"
    using D(9) la ld tl by simp
  fix j c
  assume j: "j < length (timeline (hists s' h))"
    and c: "checkpoint (timeline (hists s' h) ! j) = Some c"
  have "j < length (timeline (hists s h))"
  proof (rule ccontr)
    assume "\<not> j < length (timeline (hists s h))"
    with j tl have "j = length (timeline (hists s h))" by simp
    with c tl cp show False by simp
  qed
  moreover from this c tl have "checkpoint (timeline (hists s h) ! j) = Some c"
    by (simp add: nth_append)
  ultimately show "c < node_count s' \<and> c \<noteq> latest_state (hists s' h) \<and> c \<noteq> a \<and>
      n_data (nodes s' c) = Some (replay_data d0 (timeline (hists s' h)) j)"
    using D(10) [of j c] nc la tl da [of c] by (simp add: replay_data_append)
qed

lemma inv_add_entry:
  assumes "lineage_inv s a h d0"
  shows "lineage_inv (add_entry s h it) a h d0"
proof (cases it)
  case (Link x)
  show ?thesis
  proof (cases "records s h x")
    case False
    with assms Link show ?thesis by (simp add: add_entry_Link_skip)
  next
    case True
    let ?e = "\<lparr>timestamp = now s,
               data_delta = Some (case link_data_delta s h x of Some d \<Rightarrow> d | None \<Rightarrow> []),
               metadata_delta = Some (link_meta_delta s h x), checkpoint = None\<rparr>"
    show ?thesis
    proof (rule inv_append_entry [OF assms, where e = ?e])
      show "timeline (hists (add_entry s h it) h) = timeline (hists s h) @ [?e]"
        using True by (simp add: Link add_entry_Link_timeline)
      show "n_data (nodes (add_entry s h it) (latest_state (hists s h))) =
          map_option (\<lambda>t. entry_assign t ?e) (n_data (nodes s (latest_state (hists s h))))"
        using True
        by (cases "n_data (nodes s (latest_state (hists s h)))")
          (simp_all add: Link add_entry_Link_data entry_assign_def link_data_delta_def
            split: option.split)
    qed (simp_all add: add_entry_other_node)
  qed
next
  case (Partial p)
  let ?e = "\<lparr>timestamp = now s, data_delta = Some p, metadata_delta = None, checkpoint = None\<rparr>"
  show ?thesis
  proof (rule inv_append_entry [OF assms, where e = ?e])
    show "timeline (hists (add_entry s h it) h) = timeline (hists s h) @ [?e]"
      by (simp add: Partial add_entry_Partial_timeline)
    show "n_data (nodes (add_entry s h it) (latest_state (hists s h))) =
        map_option (\<lambda>t. entry_assign t ?e) (n_data (nodes s (latest_state (hists s h))))"
      by (simp add: Partial add_entry_Partial_data entry_assign_def)
  qed (simp_all add: add_entry_other_node)
qed

lemma entry_assign_checkpoint [simp]:
  "entry_assign t \<lparr>timestamp = ts, data_delta = None, metadata_delta = md, checkpoint = c\<rparr> = t"
  by (simp add: entry_assign_def)

lemma save_checkpoint_hists:
  "hists (save_checkpoint s h) k =
     (if k = h
      then (hists s h)\<lparr>saved_checkpoints := saved_checkpoints (hists s h) @ [node_count s],
             timeline := timeline (hists s h) @
               [\<lparr>timestamp = now s, data_delta = None, metadata_delta = None,
                 checkpoint = Some (node_count s)\<rparr>]\<rparr>
      else hists s k)"
  by (simp add: save_checkpoint_def Let_def case_prod_beta)

lemma save_checkpoint_nodes [simp]:
  "nodes (save_checkpoint s h) = nodes (fst (create_snapshot_link s h (latest_state (hists s h))))"
  "node_count (save_checkpoint s h) = Suc (node_count s)"
  by (simp_all add: save_checkpoint_def Let_def case_prod_beta)

lemma history_create_snapshot_link:
  "x < node_count s \<Longrightarrow> history (fst (create_snapshot_link s h link)) x = history s x"
  by (simp add: history_def create_snapshot_link_nodes)

lemma inv_save_checkpoint:
  assumes inv: "lineage_inv s a h d0"
  shows "lineage_inv (save_checkpoint s h) a h d0"
proof (rule lineage_invI)
  note D = lineage_invD [OF inv]
  let ?s' = "save_checkpoint s h"
  let ?es = "timeline (hists s h)"
  let ?e = "\<lparr>timestamp = now s, data_delta = None, metadata_delta = None,
             checkpoint = Some (node_count s)\<rparr> :: 'a HistoryEntry"
  have tl: "timeline (hists ?s' h) = ?es @ [?e]"
    and la: "latest_state (hists ?s' h) = latest_state (hists s h)"
    and orig: "original_state (hists ?s' h) = original_state (hists s h)"
    by (simp_all add: save_checkpoint_hists)
  have old: "x < node_count s \<Longrightarrow> n_data (nodes ?s' x) = n_data (nodes s x)" for x
    by (simp add: create_snapshot_link_nodes)
  have new: "n_data (nodes ?s' (node_count s)) = Some (foldl entry_assign d0 ?es)"
    using D(9) by (simp add: create_snapshot_link_nodes)
  show "history ?s' a = h"
    using D(1,2) by (simp add: history_def create_snapshot_link_nodes)
  show "h < hist_count ?s'"
    using D(11) by (simp add: save_checkpoint_def Let_def case_prod_beta)
  show "a < node_count ?s'" using D(2) by simp
  show "original_state (hists ?s' h) < node_count ?s'" using D(3) orig by simp
  show "latest_state (hists ?s' h) < node_count ?s'" using D(4) la by simp
  show "original_state (hists ?s' h) \<noteq> latest_state (hists ?s' h)" using D(5) la orig by simp
  show "a \<noteq> original_state (hists ?s' h)" using D(6) orig by simp
  show "a \<noteq> latest_state (hists ?s' h)" using D(7) la by simp
  show "n_data (nodes ?s' (original_state (hists ?s' h))) = Some d0"
    using D(3,8) old [of "original_state (hists s h)"] by (simp only: orig)
  show "n_data (nodes ?s' (latest_state (hists ?s' h))) =
      Some (foldl entry_assign d0 (timeline (hists ?s' h)))"
    using D(4,9) old [of "latest_state (hists s h)"] by (simp only: la tl) simp
  fix j c
  assume j: "j < length (timeline (hists ?s' h))"
    and c: "checkpoint (timeline (hists ?s' h) ! j) = Some c"
  show "c < node_count ?s' \<and> c \<noteq> latest_state (hists ?s' h) \<and> c \<noteq> a \<and>
      n_data (nodes ?s' c) = Some (replay_data d0 (timeline (hists ?s' h)) j)"
  proof (cases "j < length ?es")
    case True
    with c tl have "checkpoint (?es ! j) = Some c" by (simp add: nth_append)
    from D(10) [OF True this] old [of c] True show ?thesis
      by (simp only: la tl) (simp add: replay_data_append)
  next
    case False
    with j tl have jl: "j = length ?es" by simp
    with c tl have "c = node_count s" by simp
    with new D(2,4) jl show ?thesis
      by (simp only: la tl) (simp add: replay_data_last)
  qed
qed

lemma inv_upd_node:
  assumes inv: "lineage_inv s a h d0"
    and "\<And>n. n_chain_link_history (f n) = n_chain_link_history n"
    and "x = a \<or> (\<forall>n. n_data (f n) = n_data n)"
  shows "lineage_inv (upd_node s x f) a h d0"
  using assms(2,3) by (intro inv_frame [OF inv]) (auto simp: history_def)

lemma inv_set_next_quiet:
  assumes inv: "lineage_inv s a h d0"
  shows "lineage_inv (set_next s x l False) a h d0"
  unfolding set_next_def Let_def
  by (auto split: option.split intro!: inv_upd_node inv)

lemma inv_set_previous_quiet:
  assumes inv: "lineage_inv s a h d0"
  shows "lineage_inv (set_previous s x l False) a h d0"
  unfolding set_previous_def Let_def
  by (auto split: option.split intro!: inv_upd_node inv)

lemma set_next_recording:
  "set_next s a l True = add_entry (set_next s a l False) (history s a) (Link a)"
  by (simp add: set_next_def Let_def history_def split: option.split)

lemma set_previous_recording:
  "set_previous s a l True = add_entry (set_previous s a l False) (history s a) (Link a)"
  by (simp add: set_previous_def Let_def history_def split: option.split)

lemma inv_set_next:
  assumes inv: "lineage_inv s a h d0"
  shows "lineage_inv (set_next s a l r) a h d0"
proof (cases r)
  case True
  with inv_add_entry [OF inv_set_next_quiet [OF inv, of a l]] lineage_invD(1) [OF inv]
  show ?thesis by (simp add: set_next_recording)
next
  case False
  with inv_set_next_quiet [OF inv] show ?thesis by simp
qed

lemma inv_set_previous:
  assumes inv: "lineage_inv s a h d0"
  shows "lineage_inv (set_previous s a l r) a h d0"
proof (cases r)
  case True
  with inv_add_entry [OF inv_set_previous_quiet [OF inv, of a l]] lineage_invD(1) [OF inv]
  show ?thesis by (simp add: set_previous_recording)
next
  case False
  with inv_set_previous_quiet [OF inv] show ?thesis by simp
qed

lemma inv_update_metadata:
  assumes inv: "lineage_inv s a h d0"
  shows "lineage_inv (update_metadata s a m) a h d0"
proof -
  have 1: "lineage_inv (upd_node s a (merge_metadata m)) a h d0"
    by (rule inv_upd_node [OF inv]) simp_all
  from inv_add_entry [OF 1] lineage_invD(1) [OF inv] show ?thesis
    by (simp add: update_metadata_def Let_def)
qed

lemma inv_add_link:
  assumes inv: "lineage_inv s a h d0"
  shows "lineage_inv (add_link s a l) a h d0"
proof -
  have 1: "lineage_inv (upd_node s a (\<lambda>n. n\<lparr>n_progeny := insert l (n_progeny n)\<rparr>)) a h d0"
    by (rule inv_upd_node [OF inv]) simp_all
  have 2: "lineage_inv (upd_node (upd_node s a (\<lambda>n. n\<lparr>n_progeny := insert l (n_progeny n)\<rparr>))
      l (\<lambda>n. n\<lparr>n_ancestors := insert a (n_ancestors n)\<rparr>)) a h d0"
    by (rule inv_upd_node [OF 1]) simp_all
  from inv_add_entry [OF 2] lineage_invD(1) [OF inv] show ?thesis
    by (simp add: add_link_def Let_def)
qed

lemma inv_update:
  assumes inv: "lineage_inv s a h d0"
  shows "lineage_inv (update s a ing) a h d0"
proof -
  let ?s1 = "case i_metadata ing of Some m \<Rightarrow> update_metadata s a m | None \<Rightarrow> s"
  let ?s2 = "case i_metadata ing of Some m \<Rightarrow> upd_node ?s1 a (merge_metadata m) | None \<Rightarrow> ?s1"
  let ?s3 = "case i_data ing of Some d \<Rightarrow> upd_node ?s2 a (\<lambda>n. n\<lparr>n_data := Some d\<rparr>) | None \<Rightarrow> ?s2"
  let ?s4 = "case i_next ing of Some l \<Rightarrow> set_next ?s3 a l False | None \<Rightarrow> ?s3"
  let ?s5 = "case i_parent ing of Some l \<Rightarrow> set_previous ?s4 a l False | None \<Rightarrow> ?s4"
  have 1: "lineage_inv ?s1 a h d0"
    using inv by (simp add: inv_update_metadata split: option.split)
  have 2: "lineage_inv ?s2 a h d0"
    using 1 by (cases "i_metadata ing") (simp_all add: inv_upd_node)
  have 3: "lineage_inv ?s3 a h d0"
    using 2 by (cases "i_data ing") (simp_all add: inv_upd_node)
  have 4: "lineage_inv ?s4 a h d0"
    using 3 by (cases "i_next ing") (simp_all add: inv_set_next_quiet)
  have 5: "lineage_inv ?s5 a h d0"
    using 4 by (cases "i_parent ing") (simp_all add: inv_set_previous_quiet)
  have "update s a ing = add_entry ?s5 (history ?s5 a) (Link a)"
    by (simp add: update_def Let_def)
  with inv_add_entry [OF 5] lineage_invD(1) [OF 5] show ?thesis by simp
qed

lemma apply_entry_frame [simp]:
  "hists (apply_entry s b e) = hists s"
  "hist_count (apply_entry s b e) = hist_count s"
  "n_origin (nodes (apply_entry s b e) x) = n_origin (nodes s x)"
  "n_chain_link_history (nodes (apply_entry s b e) x) = n_chain_link_history (nodes s x)"
  "x \<noteq> b \<Longrightarrow> nodes (apply_entry s b e) x = nodes s x"
  by (simp_all add: apply_entry_def Let_def split: option.split)

lemma replay_loop_frame:
  "hists (fst (replay_loop s es i index b)) = hists s \<and>
   node_count (fst (replay_loop s es i index b)) = node_count s \<and>
   hist_count (fst (replay_loop s es i index b)) = hist_count s \<and>
   (\<forall>x. n_origin (nodes (fst (replay_loop s es i index b)) x) = n_origin (nodes s x) \<and>
        n_chain_link_history (nodes (fst (replay_loop s es i index b)) x)
          = n_chain_link_history (nodes s x) \<and>
        (x \<noteq> b \<longrightarrow> nodes (fst (replay_loop s es i index b)) x = nodes s x))"
proof (induction s es i index b rule: replay_loop.induct)
  case (1 s es i index b)
  show ?case
  proof (cases "i \<le> index")
    case le: True
    show ?thesis
    proof (cases "i < length es")
      case lt: True
      show ?thesis
      proof (cases "data_delta (es ! i) \<noteq> None \<and> n_data (nodes s b) = None")
        case True
        with le lt have "replay_loop s es i index b = (s, Some TypeError)"
          by (simp add: replay_loop_TypeError)
        then show ?thesis by simp
      next
        case False
        have "replay_loop s es i index b = replay_loop (apply_entry s b (es ! i)) es (Suc i) index b"
          using le lt False by (subst replay_loop.simps) auto
        with "1.IH"(1) [OF le lt False] show ?thesis by simp
      qed
    next
      case False
      have "replay_loop s es i index b = replay_loop s es (Suc i) index b"
        using le False by (subst replay_loop.simps) simp
      with "1.IH"(2) [OF le False] show ?thesis by simp
    qed
  next
    case False
    then show ?thesis by (simp add: replay_loop_done)
  qed
qed

lemma rebuild_at_state:
  "fst (rebuild_at s h i) = s \<or>
   fst (rebuild_at s h i) =
     fst (replay_loop (fst (create_snapshot_link s h (fst (rebuild_base s h (nat i)))))
       (timeline (hists s h)) (snd (rebuild_base s h (nat i))) (nat i) (node_count s))"
proof (cases "0 \<le> i \<and> i < int (length (timeline (hists s h)))")
  case True
  then show ?thesis by (simp add: rebuild_at_in_range Let_def)
next
  case False
  then have "i < 0 \<or> i \<ge> int (length (timeline (hists s h)))" by linarith
  then show ?thesis by (simp add: rebuild_at_def)
qed

lemma rebuild_at_frame:
  "hists (fst (rebuild_at s h i)) = hists s"
  "hist_count (fst (rebuild_at s h i)) = hist_count s"
  "node_count s \<le> node_count (fst (rebuild_at s h i))"
  "x < node_count s \<Longrightarrow> n_data (nodes (fst (rebuild_at s h i)) x) = n_data (nodes s x)"
  "x < node_count s \<Longrightarrow> n_origin (nodes (fst (rebuild_at s h i)) x) = n_origin (nodes s x)"
  "x < node_count s \<Longrightarrow> n_metadata (nodes (fst (rebuild_at s h i)) x) = n_metadata (nodes s x)"
  "x < node_count s \<Longrightarrow> history (fst (rebuild_at s h i)) x = history s x"
  using rebuild_at_state [of s h i]
  by (auto simp: replay_loop_frame create_snapshot_link_nodes history_def)

lemma inv_rebuild_at:
  assumes inv: "lineage_inv s a h d0"
  shows "lineage_inv (fst (rebuild_at s k i)) a h d0"
  using lineage_invD(2) [OF inv]
  by (intro inv_frame [OF inv]) (simp_all add: rebuild_at_frame)

lemma inv_revert_to_history:
  assumes inv: "lineage_inv s a h d0"
  shows "lineage_inv (fst (revert_to_history s a i)) a h d0"
proof -
  obtain s1 r where r: "rebuild_at s (history s a) i = (s1, r)"
    by (cases "rebuild_at s (history s a) i")
  with inv_rebuild_at [OF inv, of "history s a" i] have 1: "lineage_inv s1 a h d0" by simp
  show ?thesis
  proof (cases r)
    case (Inl e)
    with 1 r show ?thesis by (simp add: revert_to_history_def)
  next
    case (Inr found)
    show ?thesis
    proof (cases found)
      case None
      with 1 r Inr show ?thesis by (simp add: revert_to_history_def)
    next
      case (Some st)
      let ?s2 = "upd_node s1 a (\<lambda>n. n\<lparr>n_data := n_data (nodes s1 st),
                                        n_metadata := Some (metadata (nodes s1 st))\<rparr>)"
      have 2: "lineage_inv ?s2 a h d0"
        by (rule inv_upd_node [OF 1]) simp_all
      have "fst (revert_to_history s a i) = add_entry ?s2 (history ?s2 a) (Link a)"
        using r Inr Some by (simp add: revert_to_history_def Let_def)
      with inv_add_entry [OF 2] lineage_invD(1) [OF 2] show ?thesis by simp
    qed
  qed
qed

lemma inv_new_node:
  assumes inv: "lineage_inv s a h d0" and own: "own_history ing"
  shows "lineage_inv (fst (new_LinkedChain s ing)) a h d0"
  using lineage_invD(2,11) [OF inv]
  by (intro inv_frame [OF inv]) (simp_all add: new_LinkedChain_fresh [OF own] history_def)

lemma inv_branch_from_history:
  assumes inv: "lineage_inv s a h d0"
  shows "lineage_inv (fst (branch_from_history s a i)) a h d0"
proof -
  obtain s1 r where r: "rebuild_at s (history s a) i = (s1, r)"
    by (cases "rebuild_at s (history s a) i")
  with inv_rebuild_at [OF inv, of "history s a" i] have 1: "lineage_inv s1 a h d0" by simp
  show ?thesis
  proof (cases r)
    case (Inl e)
    with 1 r show ?thesis by (simp add: branch_from_history_def)
  next
    case (Inr found)
    show ?thesis
    proof (cases found)
      case None
      with 1 r Inr show ?thesis by (simp add: branch_from_history_def)
    next
      case (Some st)
      let ?ing = "\<lparr>i_origin = Some (case n_origin (nodes s1 a) of Some x \<Rightarrow> x | None \<Rightarrow> a),
                  i_parent = None, i_next = None, i_data = n_data (nodes s1 st),
                  i_metadata = Some ((metadata (nodes s1 st))
                     \<lparr>m_title := Some (branch_title (m_title (metadata (nodes s1 st))))\<rparr>),
                  i_is_snapshot = None, i_history = None\<rparr>"
      let ?s2 = "fst (new_LinkedChain s1 ?ing)"
      have 2: "lineage_inv ?s2 a h d0"
        by (rule inv_new_node [OF 1]) (simp add: own_history_def)
      have "fst (branch_from_history s a i) = add_entry ?s2 (history ?s2 a) (Link (node_count s1))"
        using r Inr Some by (simp add: branch_from_history_def Let_def case_prod_beta)
      with inv_add_entry [OF 2] lineage_invD(1) [OF 2] show ?thesis by simp
    qed
  qed
qed

lemma inv_perform:
  assumes "lineage_inv s a h d0" "lineage_op a h op"
  shows "lineage_inv (perform s op) a h d0"
  using assms
  by (cases op)
    (simp_all add: inv_update inv_update_metadata inv_set_next inv_set_previous inv_add_link
      inv_add_entry inv_save_checkpoint inv_revert_to_history inv_branch_from_history
      inv_rebuild_at)

lemma inv_perform_all:
  assumes "lineage_inv s a h d0" "list_all (lineage_op a h) ops"
  shows "lineage_inv (perform_all s ops) a h d0"
  using assms unfolding perform_all_def
  by (induction ops arbitrary: s) (simp_all add: inv_perform)

lemma inv_new_LinkedChain:
  assumes "own_history ing" "i_data ing = Some d"
  shows "lineage_inv (fst (new_LinkedChain s ing)) (node_count s) (hist_count s) d"
  using new_LinkedChain_fresh_frame(4) [OF assms(1), of s] assms(2)
  by (intro lineage_invI)
    (simp_all add: new_LinkedChain_fresh [OF assms(1)] replay_data_def)

lemma replay_loop_data:
  assumes "n_data (nodes s b) = Some X" "index < length es"
  shows "snd (replay_loop s es i index b) = None \<and>
         n_data (nodes (fst (replay_loop s es i index b)) b) =
           Some (foldl entry_assign X (take (Suc index - i) (drop i es)))"
  using assms
proof (induction s es i index b arbitrary: X rule: replay_loop.induct)
  case (1 s es i index b)
  show ?case
  proof (cases "i \<le> index")
    case le: True
    with "1.prems" have lt: "i < length es" by simp
    have nt: "\<not> (data_delta (es ! i) \<noteq> None \<and> n_data (nodes s b) = None)"
      using "1.prems" by simp
    have step: "replay_loop s es i index b =
        replay_loop (apply_entry s b (es ! i)) es (Suc i) index b"
      using le lt nt by (subst replay_loop.simps) auto
    have d: "n_data (nodes (apply_entry s b (es ! i)) b) = Some (entry_assign X (es ! i))"
      using "1.prems" by (simp add: apply_entry_data)
    have sl: "take (Suc index - i) (drop i es) = es ! i # take (Suc index - Suc i) (drop (Suc i) es)"
      using le lt by (simp add: Suc_diff_le Cons_nth_drop_Suc [symmetric])
    from "1.IH"(1) [OF le lt nt d "1.prems"(2)] show ?thesis
      by (simp add: step sl)
  next
    case False
    then have "replay_loop s es i index b = (s, None)" by (simp add: replay_loop_done)
    with False "1.prems" show ?thesis by simp
  qed
qed

lemma replay_data_split:
  assumes "j \<le> i"
  shows "replay_from (replay_data d0 es j) es j i = replay_data d0 es i"
proof -
  have "take (Suc i) es = take (Suc j) es @ take (i - j) (drop (Suc j) es)"
    using assms take_add [of "Suc j" "i - j" es] by simp
  then show ?thesis by (simp add: replay_from_def replay_data_def)
qed

lemma rebuild_at_inv:
  assumes inv: "lineage_inv s a h d0"
    and range: "0 \<le> i" "i < int (length (timeline (hists s h)))"
  shows "snd (rebuild_at s h i) = Inr (Some (node_count s)) \<and>
         n_data (nodes (fst (rebuild_at s h i)) (node_count s)) =
           Some (replay_data d0 (timeline (hists s h)) (nat i))"
proof -
  note D = lineage_invD [OF inv]
  let ?es = "timeline (hists s h)"
  have il: "nat i < length ?es" using range by simp
  obtain c st where base: "rebuild_base s h (nat i) = (c, st)"
    by (cases "rebuild_base s h (nat i)")
  have cd: "st \<le> Suc (nat i) \<and>
      map_option (\<lambda>dc. foldl entry_assign dc (take (Suc (nat i) - st) (drop st ?es)))
        (n_data (nodes s c)) = Some (replay_data d0 ?es (nat i))"
  proof (cases "find_checkpoint ?es (nat i)")
    case None
    with base D(8) show ?thesis by (simp add: rebuild_base_def replay_data_def)
  next
    case (Some cj)
    obtain c' j where cj: "cj = (c', j)" by (cases cj)
    with Some base have e: "c' = c" "st = Suc j" by (simp_all add: rebuild_base_def)
    from find_checkpoint_Some [of ?es "nat i" c' j] Some cj e
    have j: "j \<le> nat i" "j < length ?es" "checkpoint (?es ! j) = Some c" by simp_all
    from D(10) [OF j(2,3)] have "n_data (nodes s c) = Some (replay_data d0 ?es j)" by simp
    with replay_data_split [OF j(1), of d0 ?es] e j(1) show ?thesis
      by (simp add: replay_from_def)
  qed
  then obtain dc where dc: "n_data (nodes s c) = Some dc"
    "foldl entry_assign dc (take (Suc (nat i) - st) (drop st ?es)) = replay_data d0 ?es (nat i)"
    by (cases "n_data (nodes s c)") auto
  let ?s1 = "fst (create_snapshot_link s h c)"
  have b0: "n_data (nodes ?s1 (node_count s)) = Some dc"
    using dc(1) by (simp add: create_snapshot_link_nodes)
  have rb: "rebuild_at s h i =
      (let r = replay_loop ?s1 ?es st (nat i) (node_count s)
       in (fst r, case snd r of Some e \<Rightarrow> Inl e | None \<Rightarrow> Inr (Some (node_count s))))"
    using rebuild_at_in_range [of i s h] range base by (simp add: Let_def)
  from replay_loop_data [OF b0 il, of st] dc(2) show ?thesis
    by (simp add: rb Let_def)
qed

lemma replayed_store_eq:
  "replayed_store =
     add_entry (save_checkpoint (add_entry root_store 0 (Partial [(''value'', 1)])) 0) 0
       (Partial [(''name'', 7)])"
  by (simp add: replayed_store_def perform_all_def root_store_def)

lemma save_checkpoint_now [simp]: "now (save_checkpoint s h) = now s"
  by (simp add: save_checkpoint_def Let_def case_prod_beta)

lemma replayed_store_facts:
  "node_count replayed_store = 5"
  "timeline (hists replayed_store 0) =
     [\<lparr>timestamp = 0, data_delta = None, metadata_delta = None, checkpoint = Some 3\<rparr>,
      \<lparr>timestamp = 0, data_delta = Some [(''value'', 1)], metadata_delta = None, checkpoint = None\<rparr>,
      \<lparr>timestamp = 0, data_delta = None, metadata_delta = None, checkpoint = Some 4\<rparr>,
      \<lparr>timestamp = 0, data_delta = Some [(''name'', 7)], metadata_delta = None, checkpoint = None\<rparr>]"
  by (simp_all add: replayed_store_eq add_entry_Partial_timeline save_checkpoint_hists
      root_store_facts root_store_now)

lemma pair_store_original:
  "n_data (nodes pair_store (Suc 0)) = Some [(''value'', 0)]"
  by (simp add: pair_store_def new_LinkedChain_fresh [OF own_history_other] root_store_facts
      root_store_def new_LinkedChain_fresh [OF own_history_root])

lemma checkpointed_store_facts:
  "node_count checkpointed_store = 9"
  "original_state (hists checkpointed_store 0) = 1"
  "timeline (hists checkpointed_store 0) =
     [\<lparr>timestamp = 0, data_delta = None, metadata_delta = None, checkpoint = Some 3\<rparr>,
      \<lparr>timestamp = now pair_store, data_delta = None, metadata_delta = None, checkpoint = Some 8\<rparr>]"
  "n_data (nodes checkpointed_store (Suc 0)) = Some [(''value'', 0)]"
  "n_data (nodes checkpointed_store 8) = Some [(''value'', 5)]"
  by (simp_all add: checkpointed_store_def add_checkpoint_hists pair_store_facts root_store_facts
      create_snapshot_link_nodes pair_store_original)

section \<open>What an update touches\<close>

text \<open>
  \<open>update\<close> changes the payload of the updated node and of the \<open>latest_state\<close> of its
  history, and of no other node; it appends at most two entries.
\<close>

lemma set_next_quiet_frame [simp]:
  "hists (set_next s a l False) = hists s"
  "n_data (nodes (set_next s a l False) x) = n_data (nodes s x)"
  "history (set_next s a l r) x = history s x"
  by (simp_all add: set_next_def Let_def history_def split: option.split)

lemma set_previous_quiet_frame [simp]:
  "hists (set_previous s a l False) = hists s"
  "n_data (nodes (set_previous s a l False) x) = n_data (nodes s x)"
  "history (set_previous s a l r) x = history s x"
  by (simp_all add: set_previous_def Let_def history_def split: option.split)

lemma update_metadata_frame:
  "latest_state (hists (update_metadata s a m) k) = latest_state (hists s k)"
  "history (update_metadata s a m) x = history s x"
  "x \<noteq> latest_state (hists s (history s a)) \<Longrightarrow>
     n_data (nodes (update_metadata s a m) x) = n_data (nodes s x)"
  by (simp_all add: update_metadata_def Let_def add_entry_other_node)

lemma update_frame:
  "latest_state (hists (update s a ing) k) = latest_state (hists s k)"
  "history (update s a ing) x = history s x"
  by (simp_all add: update_def Let_def update_metadata_frame split: option.split)

lemma update_data_frame:
  assumes "x \<noteq> a" "x \<noteq> latest_state (hists s (history s a))"
  shows "n_data (nodes (update s a ing) x) = n_data (nodes s x)"
proof -
  let ?L = "latest_state (hists s (history s a))"
  let ?s1 = "case i_metadata ing of Some m \<Rightarrow> update_metadata s a m | None \<Rightarrow> s"
  let ?s2 = "case i_metadata ing of Some m \<Rightarrow> upd_node ?s1 a (merge_metadata m) | None \<Rightarrow> ?s1"
  let ?s3 = "case i_data ing of Some d \<Rightarrow> upd_node ?s2 a (\<lambda>n. n\<lparr>n_data := Some d\<rparr>) | None \<Rightarrow> ?s2"
  let ?s4 = "case i_next ing of Some l \<Rightarrow> set_next ?s3 a l False | None \<Rightarrow> ?s3"
  let ?s5 = "case i_parent ing of Some l \<Rightarrow> set_previous ?s4 a l False | None \<Rightarrow> ?s4"
  have 1: "n_data (nodes ?s1 x) = n_data (nodes s x) \<and> history ?s1 a = history s a \<and>
    latest_state (hists ?s1 (history s a)) = ?L"
    using assms by (cases "i_metadata ing") (simp_all add: update_metadata_frame)
  have 2: "n_data (nodes ?s2 x) = n_data (nodes s x) \<and> history ?s2 a = history s a \<and>
    latest_state (hists ?s2 (history s a)) = ?L"
    using 1 assms by (cases "i_metadata ing") simp_all
  have 3: "n_data (nodes ?s3 x) = n_data (nodes s x) \<and> history ?s3 a = history s a \<and>
    latest_state (hists ?s3 (history s a)) = ?L"
    using 2 assms by (cases "i_data ing") simp_all
  have 4: "n_data (nodes ?s4 x) = n_data (nodes s x) \<and> history ?s4 a = history s a \<and>
    latest_state (hists ?s4 (history s a)) = ?L"
    using 3 by (cases "i_next ing") simp_all
  have 5: "n_data (nodes ?s5 x) = n_data (nodes s x) \<and> history ?s5 a = history s a \<and>
    latest_state (hists ?s5 (history s a)) = ?L"
    using 4 by (cases "i_parent ing") simp_all
  have "update s a ing = add_entry ?s5 (history ?s5 a) (Link a)"
    by (simp add: update_def Let_def)
  with 5 assms(2) show ?thesis
    by (simp add: add_entry_other_node)
qed

lemma branch_from_history_independent:
  assumes r: "rebuild_at s (history s a) k = (s1, Inr (Some st))"
    and a: "a < node_count s" and l: "latest_state (hists s (history s a)) < node_count s"
    and h: "history s a < hist_count s"
  defines "s' \<equiv> fst (branch_from_history s a k)" and "b \<equiv> node_count s1"
  shows "snd (branch_from_history s a k) = Inr b" and "a < b"
    and "n_data (nodes s' b) = n_data (nodes s1 st)"
    and "n_origin (nodes s' b) = Some (case n_origin (nodes s a) of Some x \<Rightarrow> x | None \<Rightarrow> a)"
    and "n_data (nodes (update s' a ing) b) = n_data (nodes s' b)"
    and "n_data (nodes (update s' b ing) a) = n_data (nodes s' a)"
proof -
  let ?ing = "\<lparr>i_origin = Some (case n_origin (nodes s1 a) of Some x \<Rightarrow> x | None \<Rightarrow> a),
              i_parent = None, i_next = None, i_data = n_data (nodes s1 st),
              i_metadata = Some ((metadata (nodes s1 st))
                 \<lparr>m_title := Some (branch_title (m_title (metadata (nodes s1 st))))\<rparr>),
              i_is_snapshot = None, i_history = None\<rparr>"
  let ?s2 = "fst (new_LinkedChain s1 ?ing)"
  have own: "own_history ?ing" by (simp add: own_history_def)
  note F = rebuild_at_frame [where s = s and h = "history s a" and i = k, unfolded r fst_conv]
  have ab: "a < b" using F(3) a by (simp add: b_def)
  have ha: "history ?s2 a = history s a"
    using ab F(7) [OF a] by (simp add: history_def new_LinkedChain_fresh [OF own] b_def)
  have s': "s' = add_entry ?s2 (history s a) (Link b)"
    using r ha by (simp add: s'_def b_def branch_from_history_def Let_def case_prod_beta)
  have L: "latest_state (hists ?s2 (history s a)) = latest_state (hists s (history s a))"
    using h F(1,2) by (simp add: new_LinkedChain_fresh [OF own])
  have Lb: "latest_state (hists s (history s a)) \<noteq> b"
    using l F(3) by (simp add: b_def)
  show "snd (branch_from_history s a k) = Inr b"
    using r by (simp add: b_def branch_from_history_def Let_def case_prod_beta)
  show "a < b" by (rule ab)
  show "n_data (nodes s' b) = n_data (nodes s1 st)"
    using L Lb by (simp add: s' add_entry_other_node new_LinkedChain_fresh [OF own] b_def)
  have "n_origin (nodes ?s2 b) = Some (case n_origin (nodes s1 a) of Some x \<Rightarrow> x | None \<Rightarrow> a)"
    by (simp add: new_LinkedChain_fresh [OF own] b_def)
  then show "n_origin (nodes s' b) = Some (case n_origin (nodes s a) of Some x \<Rightarrow> x | None \<Rightarrow> a)"
    using F(5) [OF a] by (simp add: s')
  have hb: "history ?s2 b = hist_count s1"
    using new_LinkedChain_fresh_frame(4) [OF own, of s1] by (simp add: b_def)
  have "latest_state (hists s' (history s' a)) = latest_state (hists s (history s a))"
    using L ha by (simp add: s')
  with Lb ab show "n_data (nodes (update s' a ing) b) = n_data (nodes s' b)"
    by (intro update_data_frame) simp_all
  have "latest_state (hists ?s2 (hist_count s1)) = b + 2"
    by (simp add: new_LinkedChain_fresh [OF own] b_def)
  with hb have "latest_state (hists s' (history s' b)) = b + 2"
    by (simp add: s')
  with ab show "n_data (nodes (update s' b ing) a) = n_data (nodes s' a)"
    by (intro update_data_frame) simp_all
qed

lemma add_entry_length:
  "length (timeline (hists s k)) \<le> length (timeline (hists (add_entry s h it) k)) \<and>
   length (timeline (hists (add_entry s h it) k)) \<le> Suc (length (timeline (hists s k)))"
  by (cases it) (simp_all add: add_entry_Link_timeline add_entry_Partial_timeline)

lemma update_appends_at_most_two:
  "length (timeline (hists (update s a ing) k)) \<le> length (timeline (hists s k)) + 2"
  "i_metadata ing = None \<Longrightarrow>
     length (timeline (hists (update s a ing) k)) \<le> length (timeline (hists s k)) + 1"
proof -
  let ?s1 = "case i_metadata ing of Some m \<Rightarrow> update_metadata s a m | None \<Rightarrow> s"
  let ?s2 = "case i_metadata ing of Some m \<Rightarrow> upd_node ?s1 a (merge_metadata m) | None \<Rightarrow> ?s1"
  let ?s3 = "case i_data ing of Some d \<Rightarrow> upd_node ?s2 a (\<lambda>n. n\<lparr>n_data := Some d\<rparr>) | None \<Rightarrow> ?s2"
  let ?s4 = "case i_next ing of Some l \<Rightarrow> set_next ?s3 a l False | None \<Rightarrow> ?s3"
  let ?s5 = "case i_parent ing of Some l \<Rightarrow> set_previous ?s4 a l False | None \<Rightarrow> ?s4"
  have 1: "length (timeline (hists ?s1 k)) \<le> Suc (length (timeline (hists s k)))"
    "i_metadata ing = None \<Longrightarrow> hists ?s1 = hists s"
    using add_entry_length [of "upd_node s a (merge_metadata m)" k _ "Link a" for m]
    by (cases "i_metadata ing"; simp add: update_metadata_def Let_def)+
  have "hists ?s2 = hists ?s1" by (cases "i_metadata ing") simp_all
  moreover have "hists ?s3 = hists ?s2" by (cases "i_data ing") simp_all
  moreover have "hists ?s4 = hists ?s3" by (cases "i_next ing") simp_all
  moreover have "hists ?s5 = hists ?s4" by (cases "i_parent ing") simp_all
  ultimately have 5: "hists ?s5 = hists ?s1" by simp
  have u: "update s a ing = add_entry ?s5 (history ?s5 a) (Link a)"
    by (simp add: update_def Let_def)
  from add_entry_length [of ?s5 k "history ?s5 a" "Link a"] 1(1) 5
  show "length (timeline (hists (update s a ing) k)) \<le> length (timeline (hists s k)) + 2"
    by (simp add: u)
  assume "i_metadata ing = None"
  with add_entry_length [of ?s5 k "history ?s5 a" "Link a"] 1(2) 5
  show "length (timeline (hists (update s a ing) k)) \<le> length (timeline (hists s k)) + 1"
    by (simp add: u)
qed

section \<open>Indices out of range\<close>



section \<open>The delta between two points\<close>

text \<open>
  Claim C6.  For \<open>start\<close> and \<open>end\<close> within the timeline: when \<open>end > start\<close>,
  \<open>delta_between_points\<close> is the last-write-wins union, in forward order, of the data
  deltas of the entries \<open>start + 1\<close> to \<open>end\<close>, as an object and (the deltas being
  objects) as the map it denotes; when \<open>end <= start\<close> it is the empty delta.
\<close>

theorem delta_between_points_union:
  assumes "0 \<le> start" "start < int (length (timeline (hists s h)))"
    and "0 \<le> end'" "end' < int (length (timeline (hists s h)))"
  shows "(start < end' \<longrightarrow>
           delta_between_points s h start end' =
             assign_all (deltas_between (timeline (hists s h)) (nat start) (nat end')) \<and>
           ((\<forall>e \<in> set (timeline (hists s h)). \<forall>d. data_delta e = Some d \<longrightarrow> wf_object d) \<longrightarrow>
            map_of (delta_between_points s h start end') =
              lww_union (deltas_between (timeline (hists s h)) (nat start) (nat end')))) \<and>
         (end' \<le> start \<longrightarrow> delta_between_points s h start end' = [])"
proof (intro conjI impI)
  let ?es = "timeline (hists s h)"
  let ?sl = "take (nat end' - nat start) (drop (Suc (nat start)) ?es)"
  have e: "nat end' < length ?es" using assms by simp
  {
    assume lt: "start < end'"
    have idx: "Suc (nat end') - nat (start + 1) = nat end' - nat start"
      "nat (start + 1) = Suc (nat start)"
      using assms lt by simp_all
    have loop: "delta_between_points s h start end' = foldl entry_assign [] ?sl"
      using assms lt by (simp add: delta_between_points_def Let_def delta_loop_foldl [OF e] idx)
    then show "delta_between_points s h start end' =
        assign_all (deltas_between ?es (nat start) (nat end'))"
      by (simp add: foldl_entry_assign_map_filter assign_all_def deltas_between_def)
    assume wf: "\<forall>e \<in> set ?es. \<forall>d. data_delta e = Some d \<longrightarrow> wf_object d"
    have "\<forall>e \<in> set ?sl. \<forall>d. data_delta e = Some d \<longrightarrow> wf_object d"
      using wf by (meson in_set_takeD in_set_dropD)
    with loop show "map_of (delta_between_points s h start end') =
        lww_union (deltas_between ?es (nat start) (nat end'))"
      by (simp add: foldl_entry_assign_map_of lww_union_def deltas_between_def)
  }
  assume "end' \<le> start"
  then show "delta_between_points s h start end' = []"
    by (simp add: delta_between_points_def Let_def)
qed

theorem delta_between_points_union_witness:
  "delta_between_points two_entries_store 0 0 2 = [(''value'', 1), (''name'', 7)] \<and>
   delta_between_points two_entries_store 0 2 0 = []"
proof -
  have len: "(0::int) \<le> 0" "0 < int (length (timeline (hists two_entries_store 0)))"
    "(0::int) \<le> 2" "2 < int (length (timeline (hists two_entries_store 0)))"
    by (simp_all add: two_entries_store_timeline)
  have fwd: "deltas_between (timeline (hists two_entries_store 0)) (nat 0) (nat 2)
      = [[(''value'', 1)], [(''name'', 7)]]"
    by (simp add: two_entries_store_timeline deltas_between_def List.map_filter_simps)
  from delta_between_points_union [OF len(1,2) len(3,4)]
       delta_between_points_union [OF len(3,4) len(1,2)] fwd
  show ?thesis by (simp add: assign_all_def object_assign_def)
qed

section \<open>Linking\<close>

text \<open>
  Claim C7.  After \<open>a.link_next(b)\<close>: \<open>a.next() === b\<close>, \<open>b.previous() === a\<close>, \<open>b\<close> is
  in \<open>a.progeny()\<close> and \<open>a\<close> is in \<open>b.ancestors()\<close>, for all nodes \<open>a\<close> and \<open>b\<close>.
\<close>

theorem link_next_bidirectional:
  "n_next (nodes (link_next s a b) a) = Some b \<and>
   n_previous (nodes (link_next s a b) b) = Some a \<and>
   b \<in> n_progeny (nodes (link_next s a b) a) \<and>
   a \<in> n_ancestors (nodes (link_next s a b) b)"
  by (simp add: link_next_def Let_def set_next_links set_previous_links set_next_sets
      set_previous_sets)

text \<open>
  Claim C8.  Over every sequence of public operations, the ancestors and the progeny of
  every node only grow: no operation removes an element, and re-pointing \<open>next\<close> or
  \<open>previous\<close> leaves the old neighbour in the sets of both sides.
\<close>

theorem sets_monotonic:
  assumes "x < node_count s"
  shows "n_progeny (nodes s x) \<subseteq> n_progeny (nodes (perform_all s ops) x) \<and>
         n_ancestors (nodes s x) \<subseteq> n_ancestors (nodes (perform_all s ops) x)"
  using grows_perform_all [of s ops] assms by (simp add: grows_def)

theorem sets_monotonic_witness:
  "(0::nat) < node_count root_store \<and>
   n_progeny (nodes root_store 0)
     \<subseteq> n_progeny (nodes (perform_all root_store [SetNext 0 (Some 1) True, SetNext 0 (Some 2) True]) 0) \<and>
   n_ancestors (nodes root_store 0)
     \<subseteq> n_ancestors (nodes (perform_all root_store [SetNext 0 (Some 1) True, SetNext 0 (Some 2) True]) 0) \<and>
   1 \<in> n_progeny (nodes (perform_all root_store [SetNext 0 (Some 1) True, SetNext 0 (Some 2) True]) 0)"
proof -
  have h: "(0::nat) < node_count root_store"
    by (simp add: root_store_facts)
  from sets_monotonic [OF h, of "[SetNext 0 (Some 1) True, SetNext 0 (Some 2) True]"] h
  show ?thesis by (simp add: perform_all_def set_next_sets)
qed

section \<open>Iteration\<close>

text \<open>
  Claim C9, as amended.  When the \<open>next\<close> chain (or the \<open>previous\<close> chain) of a node
  reaches \<open>null\<close> or comes back to the node, \<open>iterate\<close> yields a finite sequence, no
  longer than the chain.  The start is not among the yielded nodes, except when the
  node's own pointer points at the node itself: then the start is yielded once and the
  walk stops.
\<close>

theorem iterate_finite:
  assumes "chain_at s d (Some this) (Suc n) = None \<or> chain_at s d (Some this) (Suc n) = Some this"
  shows "\<exists>xs. iterate s this d = Some xs \<and> length xs \<le> Suc n \<and>
           (if neighbour s d this = Some this then xs = [this] else this \<notin> set xs)"
proof (cases "neighbour s d this = Some this")
  case True
  then have "iterate s this d = Some [this]"
    unfolding iterate_def by (subst iterate_loop.simps) simp
  with True show ?thesis by simp
next
  case False
  from assms have "chain_at s d (neighbour s d this) n = None
      \<or> chain_at s d (neighbour s d this) n = Some this"
    by simp
  from iterate_loop_ends [OF this False] False show ?thesis
    unfolding iterate_def by auto
qed

theorem iterate_finite_witness:
  "(chain_at two_cycle_store Next (Some 0) (Suc 1) = None
      \<or> chain_at two_cycle_store Next (Some 0) (Suc 1) = Some 0) \<and>
   (\<exists>xs. iterate two_cycle_store 0 Next = Some xs \<and> length xs \<le> Suc 1 \<and>
      (if neighbour two_cycle_store Next 0 = Some 0 then xs = [0] else 0 \<notin> set xs))"
proof -
  have h: "chain_at two_cycle_store Next (Some 0) (Suc 1) = None
      \<or> chain_at two_cycle_store Next (Some 0) (Suc 1) = Some 0"
    by (simp add: two_cycle_store_def neighbour_def set_next_links)
  from iterate_finite [OF h] h show ?thesis by simp
qed

text \<open>
  The claim as stated fails on a node whose \<open>next\<close> is the node itself
  (\<open>a.set_next(a)\<close>): its chain comes back to the start after one step, and \<open>iterate\<close>
  yields the start.
\<close>

theorem iterate_self_loop_yields_start:
  "chain_at (set_next root_store 0 (Some 0) True) Next (Some 0) 1 = Some 0 \<and>
   iterate (set_next root_store 0 (Some 0) True) 0 Next = Some [0]"
  unfolding iterate_def
  by (subst iterate_loop.simps) (simp add: neighbour_def set_next_links)

section \<open>What an update records\<close>

text \<open>
  Claim C2.  One call of \<open>update\<close> should append at most one entry.  It does not: with
  a metadata field, \<open>update\<close> calls \<open>update_metadata\<close>, which records the metadata
  change, and then records the data change at its end.  On the root node,
  \<open>update({data: {value: 1}, metadata: {title: "New"}})\<close> appends two entries.
  (Two is the most, and without a metadata field it is at most one:
  \<open>update_appends_at_most_two\<close>.)
\<close>

theorem update_two_entries:
  "length (timeline (hists (update root_store 0 both_ingredients) 0)) =
     length (timeline (hists root_store 0)) + 2"
proof -
  let ?m = "\<lparr>m_id = None, m_title = Some ''New'', m_description = None, m_extra = None\<rparr> :: int Metadata"
  let ?s0 = "upd_node root_store 0 (merge_metadata ?m)"
  let ?s1 = "add_entry ?s0 0 (Link 0)"
  let ?s2 = "upd_node ?s1 0 (merge_metadata ?m)"
  let ?s3 = "upd_node ?s2 0 (\<lambda>n. n\<lparr>n_data := Some [(''value'', 1)]\<rparr>)"
  have u: "update root_store 0 both_ingredients = add_entry ?s3 0 (Link 0)"
    by (simp add: update_both [where m = ?m and d = "[(''value'', 1)]"] both_ingredients_def
        no_ingredients_def Let_def root_store_facts)
  have r0: "records ?s0 0 0"
    by (simp add: records_def link_meta_delta_def link_data_delta_def root_store_facts
        metadata_merge_metadata nullish_def calculate_metadata_delta_def meta_keys_def)
  have d1: "n_data (nodes ?s1 2) = Some [(''value'', 0)]"
    using r0
    by (simp add: add_entry_Link_data root_store_facts link_data_delta_def calculate_delta_def
        object_assign_def)
  have r3: "records ?s3 0 0"
    using d1
    by (simp add: records_def link_data_delta_def root_store_facts calculate_delta_def)
  show ?thesis
    using r0 r3 by (simp add: u add_entry_Link_timeline root_store_facts)
qed




text \<open>
  Claim C10, as amended.  For a node whose history holds no payload (\<open>latest_state\<close>,
  \<open>original_state\<close> and the checkpoints have none, as for a node built without data)
  and whose title and description are those of \<open>latest_state\<close>: an \<open>update\<close> with a
  data field alone sets \<open>data()\<close> to the payload, changes no history, and no
  \<open>rebuild_at\<close> afterwards returns a snapshot with a payload.
\<close>

theorem update_without_initial_data:
  assumes "i_data ing = Some p" "i_metadata ing = None" "i_next ing = None" "i_parent ing = None"
    and "history s this = h"
    and "latest_state (hists s h) \<noteq> this" "n_data (nodes s (latest_state (hists s h))) = None"
    and "m_title (metadata (nodes s (latest_state (hists s h)))) = m_title (metadata (nodes s this))"
    and "m_description (metadata (nodes s (latest_state (hists s h))))
           = m_description (metadata (nodes s this))"
    and "original_state (hists s h) \<noteq> this" "n_data (nodes s (original_state (hists s h))) = None"
    and "\<forall>e \<in> set (timeline (hists s h)). \<forall>c. checkpoint e = Some c \<longrightarrow>
           c \<noteq> this \<and> n_data (nodes s c) = None"
  shows "n_data (nodes (update s this ing) this) = Some p \<and>
         hists (update s this ing) = hists s \<and>
         (\<forall>i b. snd (rebuild_at (update s this ing) h i) = Inr (Some b) \<longrightarrow>
            n_data (nodes (fst (rebuild_at (update s this ing) h i)) b) = None)"
proof -
  let ?s3 = "upd_node s this (\<lambda>n. n\<lparr>n_data := Some p\<rparr>)"
  have "\<not> records ?s3 h this"
    using assms(6-9)
    by (auto simp: records_def link_data_delta_def link_meta_delta_def calculate_metadata_delta_def
        meta_keys_def split: option.splits)
  then have u: "update s this ing = ?s3"
    by (simp add: update_data_only [OF assms(1-4)] assms(5) add_entry_Link_skip)
  have "n_data (nodes (fst (rebuild_at ?s3 h i)) b) = None"
    if r: "snd (rebuild_at ?s3 h i) = Inr (Some b)" for i b
  proof -
    let ?es = "timeline (hists s h)"
    from r have range: "0 \<le> i" "i < int (length ?es)"
      by (auto simp: rebuild_at_def Let_def split: if_splits)
    obtain c st where base: "rebuild_base ?s3 h (nat i) = (c, st)"
      by (cases "rebuild_base ?s3 h (nat i)")
    have c: "c \<noteq> this \<and> n_data (nodes s c) = None"
    proof (cases "find_checkpoint ?es (nat i)")
      case None
      with base assms(10,11) show ?thesis by (simp add: rebuild_base_def)
    next
      case (Some cj)
      obtain c' j where cj: "cj = (c', j)" by (cases cj)
      with Some base have "c' = c" by (simp add: rebuild_base_def)
      with find_checkpoint_Some [of ?es "nat i" c' j] Some cj
      have "?es ! j \<in> set ?es" "checkpoint (?es ! j) = Some c" by simp_all
      with assms(12) show ?thesis by blast
    qed
    let ?s1 = "fst (create_snapshot_link ?s3 h c)"
    have b0: "n_data (nodes ?s1 (node_count s)) = None"
      using c by (simp add: create_snapshot_link_nodes)
    have rb: "rebuild_at ?s3 h i =
        (let r = replay_loop ?s1 ?es st (nat i) (node_count s)
         in (fst r, case snd r of Some e \<Rightarrow> Inl e | None \<Rightarrow> Inr (Some (node_count s))))"
      using rebuild_at_in_range [of i ?s3 h] range base by (simp add: Let_def split: option.split)
    with r have "b = node_count s"
      by (auto simp: Let_def split: option.splits)
    with rb replay_loop_data_None [OF b0, of ?es st "nat i"] show ?thesis
      by (simp add: Let_def)
  qed
  with u show ?thesis by simp
qed

theorem update_without_initial_data_witness:
  "n_data (nodes dataless_store 0) = None \<and>
   n_data (nodes (update dataless_store 0 same_ingredients) 0) = Some [(''value'', 0)] \<and>
   hists (update dataless_store 0 same_ingredients) = hists dataless_store \<and>
   snd (rebuild_at (update dataless_store 0 same_ingredients) 0 0) = Inr (Some 4) \<and>
   n_data (nodes (fst (rebuild_at (update dataless_store 0 same_ingredients) 0 0)) 4) = None"
proof -
  let ?s' = "update dataless_store 0 same_ingredients"
  have i: "i_data same_ingredients = Some [(''value'', 0)]" "i_metadata same_ingredients = None"
    "i_next same_ingredients = None" "i_parent same_ingredients = None"
    by (simp_all add: same_ingredients_def no_ingredients_def)
  have h: "history dataless_store 0 = 0"
    by (simp add: dataless_store_facts)
  have l: "latest_state (hists dataless_store 0) \<noteq> 0"
    "n_data (nodes dataless_store (latest_state (hists dataless_store 0))) = None"
    "m_title (metadata (nodes dataless_store (latest_state (hists dataless_store 0))))
       = m_title (metadata (nodes dataless_store 0))"
    "m_description (metadata (nodes dataless_store (latest_state (hists dataless_store 0))))
       = m_description (metadata (nodes dataless_store 0))"
    "original_state (hists dataless_store 0) \<noteq> 0"
    "n_data (nodes dataless_store (original_state (hists dataless_store 0))) = None"
    by (simp_all add: dataless_store_facts)
  have c: "\<forall>e \<in> set (timeline (hists dataless_store 0)). \<forall>c. checkpoint e = Some c \<longrightarrow>
           c \<noteq> 0 \<and> n_data (nodes dataless_store c) = None"
    by (simp add: dataless_store_facts)
  note main = update_without_initial_data [OF i h l c]
  from main have hs: "hists ?s' = hists dataless_store" by simp
  have "rebuild_base ?s' 0 (nat 0) = (3, 1)"
    by (simp add: rebuild_base_def hs dataless_store_facts)
  then have "snd (rebuild_at ?s' 0 0) = Inr (Some 4)"
    using rebuild_at_in_range [of 0 ?s' 0]
    by (simp add: hs dataless_store_facts Let_def replay_loop_done)
  with main show ?thesis
    by (simp add: dataless_store_facts)
qed

text \<open>
  The claim as stated fails when the title of \<open>latest_state\<close> differs from the node's:
  after \<open>node.add_link(other)\<close> has recorded the other node's title, a data-only update
  of the node without a payload appends an entry (for the title).
\<close>

theorem data_update_recorded_after_add_link:
  "n_data (nodes titled_link_store 0) = None \<and>
   n_data (nodes titled_link_store (latest_state (hists titled_link_store 0))) = None \<and>
   length (timeline (hists (update titled_link_store 0 same_ingredients) 0)) =
     Suc (length (timeline (hists titled_link_store 0)))"
proof -
  have i: "i_data same_ingredients = Some [(''value'', 0)]" "i_metadata same_ingredients = None"
    "i_next same_ingredients = None" "i_parent same_ingredients = None"
    by (simp_all add: same_ingredients_def no_ingredients_def)
  let ?s3 = "upd_node titled_link_store 0 (\<lambda>n. n\<lparr>n_data := Some [(''value'', 0)]\<rparr>)"
  have "link_meta_delta ?s3 0 0 = \<lparr>d_title = Some (Some ''''), d_description = Some (Some '''')\<rparr>"
    by (simp add: link_meta_delta_def titled_link_store_facts metadata_def
        calculate_metadata_delta_def)
  then have "records ?s3 0 0"
    by (simp add: records_def meta_keys_def)
  then show ?thesis
    by (simp add: update_data_only [OF i] titled_link_store_facts add_entry_Link_timeline)
qed

section \<open>Branching\<close>

text \<open>
  Claim C3.  For every node and every index within the timeline, \<open>branch_from_history\<close>
  should return a new node.  It does not on a node built without a payload: once an
  entry has been recorded (here by \<open>update({metadata: {title: "B"}})\<close>, entry 1, whose
  \<open>data_delta\<close> is \<open>{}\<close>), the replay in \<open>rebuild_at\<close> assigns onto the missing payload
  and throws a TypeError, which \<open>branch_from_history\<close> passes on.  (Whenever
  \<open>rebuild_at\<close> does return a snapshot, the branch is a new node with the snapshot's
  payload and the stated origin, and updates of either node leave the other's payload
  alone: \<open>branch_from_history_independent\<close>.)
\<close>

theorem branch_from_history_TypeError:
  "(0::int) \<le> 1 \<and> 1 < int (length (timeline (hists retitled_store (history retitled_store 0)))) \<and>
   snd (rebuild_at retitled_store (history retitled_store 0) 1) = Inl TypeError \<and>
   snd (branch_from_history retitled_store 0 1) = Inl TypeError"
proof -
  have b: "rebuild_base retitled_store 0 (nat 1) = (3, 1)"
    by (simp add: rebuild_base_def retitled_store_facts)
  have "n_data (nodes (fst (create_snapshot_link retitled_store 0 3)) 4) = None"
    by (simp add: create_snapshot_link_nodes retitled_store_facts)
  then have "replay_loop (fst (create_snapshot_link retitled_store 0 3))
      (timeline (hists retitled_store 0)) 1 1 4
      = (fst (create_snapshot_link retitled_store 0 3), Some TypeError)"
    by (intro replay_loop_TypeError) (simp_all add: retitled_store_facts)
  then have r: "snd (rebuild_at retitled_store 0 1) = Inl TypeError"
    using rebuild_at_in_range [of 1 retitled_store 0] b
    by (simp add: retitled_store_facts Let_def)
  then show ?thesis
    by (simp add: retitled_store_facts branch_from_history_def Let_def case_prod_beta
        split: sum.split)
qed

section \<open>Reconstruction\<close>




end
